theory Spec2Isabelle
  imports
    Main
    "HOL-Library.Char_ord"
    "HOL-Library.List_Lexorder"
    "HOL-Library.AList"
    "HOL-Library.Word"
begin

unbundle bit_operations_syntax

section \<open>JSON values and JavaScript truthiness\<close>

text \<open>
  The server (\<^verbatim>\<open>server.js\<close>) receives JSON bodies through \<^verbatim>\<open>bodyParser.json()\<close>,
  keeps the log records in the array \<^verbatim>\<open>logs\<close>, and writes that array to disk with
  \<^verbatim>\<open>JSON.stringify\<close>. A value in memory is modelled as the tree \<^verbatim>\<open>JSON.parse\<close>
  builds. A JavaScript number is an IEEE 754 double, modelled by its 64 bits: the sign,
  eleven bits of exponent, fifty-two bits of fraction.
\<close>

type_synonym double = "64 word"

definition is_zero :: "double \<Rightarrow> bool" where
  "is_zero d \<longleftrightarrow> d AND 0x7FFFFFFFFFFFFFFF = 0"

definition finite_double :: "double \<Rightarrow> bool" where
  "finite_double d \<longleftrightarrow> d AND 0x7FF0000000000000 \<noteq> 0x7FF0000000000000"

definition is_NaN :: "double \<Rightarrow> bool" where
  "is_NaN d \<longleftrightarrow> \<not> finite_double d \<and> d AND 0x000FFFFFFFFFFFFF \<noteq> 0"

datatype json =
    JNull
  | JBool bool
  | JNum double
  | JStr string
  | JArr "json list"
  | JObj "(string \<times> json) list"

text \<open>
  Property access \<^verbatim>\<open>req.body.log\<close>: \<open>None\<close> is JavaScript's \<^verbatim>\<open>undefined\<close>. With
  \<^verbatim>\<open>bodyParser.json()\<close> in its default strict mode the body is an object or an array;
  an array has no property \<^verbatim>\<open>log\<close>.
\<close>

fun get_prop :: "json \<Rightarrow> string \<Rightarrow> json option" where
  "get_prop (JObj kvs) k = map_of kvs k"
| "get_prop _ k = None"

text \<open>The test \<^verbatim>\<open>if (log)\<close>: JavaScript's ToBoolean on a parsed JSON value.\<close>

fun truthy :: "json option \<Rightarrow> bool" where
  "truthy None = False"
| "truthy (Some JNull) = False"
| "truthy (Some (JBool b)) = b"
| "truthy (Some (JNum d)) = (\<not> is_zero d \<and> \<not> is_NaN d)"
| "truthy (Some (JStr s)) = (s \<noteq> [])"
| "truthy (Some (JArr xs)) = True"
| "truthy (Some (JObj kvs)) = True"

text \<open>
  \<^verbatim>\<open>JSON.stringify\<close>, given by the value that the text it writes parses back to.
  Infinities and NaN are written as \<^verbatim>\<open>null\<close>, negative zero as \<^verbatim>\<open>0\<close>; any other
  number is written so that it reads back as the same double; texts, booleans and
  \<^verbatim>\<open>null\<close> are written as they are, arrays and objects member by member.
\<close>

primrec stringify :: "json \<Rightarrow> json" where
  "stringify JNull = JNull"
| "stringify (JBool b) = JBool b"
| "stringify (JNum d) =
     (if \<not> finite_double d then JNull else if is_zero d then JNum 0 else JNum d)"
| "stringify (JStr s) = JStr s"
| "stringify (JArr xs) = JArr (map stringify xs)"
| "stringify (JObj kvs) = JObj (map (map_prod id stringify) kvs)"

text \<open>A value that \<^verbatim>\<open>JSON.stringify\<close> writes without loss.\<close>

primrec exact :: "json \<Rightarrow> bool" where
  "exact JNull = True"
| "exact (JBool b) = True"
| "exact (JNum d) = (finite_double d \<and> (\<not> is_zero d \<or> d = 0))"
| "exact (JStr s) = True"
| "exact (JArr xs) = list_all id (map exact xs)"
| "exact (JObj kvs) = list_all id (map (\<lambda>kv. pred_prod (\<lambda>k. True) exact kv) kvs)"

section \<open>The sentinel: \<^verbatim>\<open>/shutdown/i.test(log)\<close>\<close>

text \<open>
  A literal pattern under the flag \<^verbatim>\<open>i\<close> compares characters after canonicalisation
  (upper-casing); for the ASCII pattern \<^verbatim>\<open>shutdown\<close> only ASCII letters are affected.
  \<open>test\<close> tries every start position.
\<close>

definition canonicalize :: "char \<Rightarrow> char" where
  "canonicalize c =
     (case map_of (zip ''abcdefghijklmnopqrstuvwxyz'' ''ABCDEFGHIJKLMNOPQRSTUVWXYZ'') c of
        Some u \<Rightarrow> u
      | None \<Rightarrow> c)"

fun matches_at :: "string \<Rightarrow> string \<Rightarrow> bool" where
  "matches_at [] s = True"
| "matches_at (p # ps) [] = False"
| "matches_at (p # ps) (c # cs) = (canonicalize p = canonicalize c \<and> matches_at ps cs)"

fun regex_test_i :: "string \<Rightarrow> string \<Rightarrow> bool" where
  "regex_test_i pat [] = matches_at pat []"
| "regex_test_i pat (c # cs) = (matches_at pat (c # cs) \<or> regex_test_i pat cs)"

text \<open>\<^verbatim>\<open>typeof log === 'string' && /shutdown/i.test(log)\<close>\<close>

fun is_shutdown :: "json \<Rightarrow> bool" where
  "is_shutdown (JStr s) = regex_test_i ''shutdown'' s"
| "is_shutdown _ = False"

section \<open>Clock and snapshot names\<close>

text \<open>
  \<^verbatim>\<open>new Date()\<close> read in UTC fields. \<^verbatim>\<open>toISOString()\<close> prints
  \<^verbatim>\<open>YYYY-MM-DDTHH:mm:ss.sssZ\<close> for the years 0000 to 9999, the range modelled here;
  \<^verbatim>\<open>.replace(/[:.]/g, '-')\<close> turns every colon and period into a dash.
\<close>

record utc =
  year :: nat
  month :: nat
  day :: nat
  hour :: nat
  minute :: nat
  second :: nat
  millis :: nat

definition digit :: "nat \<Rightarrow> char" where
  "digit n = ''0123456789'' ! (n mod 10)"

definition pad2 :: "nat \<Rightarrow> string" where
  "pad2 n = [digit (n div 10), digit n]"

definition pad3 :: "nat \<Rightarrow> string" where
  "pad3 n = [digit (n div 100), digit (n div 10), digit n]"

definition pad4 :: "nat \<Rightarrow> string" where
  "pad4 n = [digit (n div 1000), digit (n div 100), digit (n div 10), digit n]"

definition toISOString :: "utc \<Rightarrow> string" where
  "toISOString t =
     pad4 (year t) @ ''-'' @ pad2 (month t) @ ''-'' @ pad2 (day t) @ ''T'' @
     pad2 (hour t) @ '':'' @ pad2 (minute t) @ '':'' @ pad2 (second t) @ ''.'' @
     pad3 (millis t) @ ''Z''"

definition replace_colon_dot :: "string \<Rightarrow> string" where
  "replace_colon_dot s = map (\<lambda>c. if c = CHR '':'' \<or> c = CHR ''.'' then CHR ''-'' else c) s"

definition archive_name :: "utc \<Rightarrow> string" where
  "archive_name t = ''logs-'' @ replace_colon_dot (toISOString t) @ ''.json''"

text \<open>A clock reading that \<^verbatim>\<open>toISOString\<close> prints in the four-digit-year form.\<close>

definition valid_utc :: "utc \<Rightarrow> bool" where
  "valid_utc t \<longleftrightarrow>
     year t \<le> 9999 \<and> 1 \<le> month t \<and> month t \<le> 12 \<and> 1 \<le> day t \<and> day t \<le> 31 \<and>
     hour t \<le> 23 \<and> minute t \<le> 59 \<and> second t \<le> 59 \<and> millis t \<le> 999"

text \<open>Chronological order of UTC readings: the fields compared from the year down.\<close>

definition chrono :: "utc \<Rightarrow> nat list" where
  "chrono t = [year t, month t, day t, hour t, minute t, second t, millis t]"

section \<open>Node's POSIX path functions\<close>

fun split_on :: "char \<Rightarrow> string \<Rightarrow> string list" where
  "split_on d [] = [[]]"
| "split_on d (c # cs) =
     (if c = d then [] # split_on d cs
      else (case split_on d cs of [] \<Rightarrow> [[c]] | w # ws \<Rightarrow> (c # w) # ws))"

fun join_with :: "char \<Rightarrow> string list \<Rightarrow> string" where
  "join_with d [] = []"
| "join_with d [s] = s"
| "join_with d (s # t # ss) = s @ d # join_with d (t # ss)"

text \<open>
  \<^verbatim>\<open>normalizeString(path, allowAboveRoot)\<close>, segment by segment: empty segments and
  \<^verbatim>\<open>.\<close> are dropped, \<^verbatim>\<open>..\<close> removes the segment before it, and where there is none it
  is kept only when \<^verbatim>\<open>allowAboveRoot\<close> holds.
\<close>

fun norm_segs :: "bool \<Rightarrow> string list \<Rightarrow> string list \<Rightarrow> string list" where
  "norm_segs allow acc [] = acc"
| "norm_segs allow acc (s # ss) =
     (if s = [] \<or> s = ''.'' then norm_segs allow acc ss
      else if s = ''..'' then
        (if acc \<noteq> [] \<and> last acc \<noteq> ''..'' then norm_segs allow (butlast acc) ss
         else if allow then norm_segs allow (acc @ [''..'']) ss
         else norm_segs allow acc ss)
      else norm_segs allow (acc @ [s]) ss)"

definition normalizeString :: "string \<Rightarrow> bool \<Rightarrow> string" where
  "normalizeString p allow = join_with CHR ''/'' (norm_segs allow [] (split_on CHR ''/'' p))"

definition isAbsolute :: "string \<Rightarrow> bool" where
  "isAbsolute p = (case p of [] \<Rightarrow> False | c # cs \<Rightarrow> c = CHR ''/'')"

definition normalize :: "string \<Rightarrow> string" where
  "normalize p =
     (if p = [] then ''.''
      else
        let absolute = isAbsolute p;
            trailing = (last p = CHR ''/'');
            q = normalizeString p (\<not> absolute)
        in if q = [] then (if absolute then ''/'' else if trailing then ''./'' else ''.'')
           else (if absolute then ''/'' else []) @ q @ (if trailing then ''/'' else []))"

definition path_join :: "string list \<Rightarrow> string" where
  "path_join args =
     (case filter (\<lambda>a. a \<noteq> []) args of
        [] \<Rightarrow> ''.''
      | a # as \<Rightarrow> normalize (join_with CHR ''/'' (a # as)))"

text \<open>
  \<^verbatim>\<open>path.basename\<close>: trailing slashes are ignored, then everything up to the last
  remaining slash is cut off.
\<close>

definition basename :: "string \<Rightarrow> string" where
  "basename p =
     rev (takeWhile (\<lambda>c. c \<noteq> CHR ''/'') (dropWhile (\<lambda>c. c = CHR ''/'') (rev p)))"

text \<open>
  \<^verbatim>\<open>path.resolve\<close>: the arguments are taken from the right until one is absolute;
  when none is, the working directory (itself absolute) is put in front.
\<close>

fun resolve_from_right :: "string list \<Rightarrow> string \<Rightarrow> string option" where
  "resolve_from_right [] acc = None"
| "resolve_from_right (p # ps) acc =
     (if p = [] then resolve_from_right ps acc
      else if isAbsolute p then Some (p @ ''/'' @ acc)
      else resolve_from_right ps (p @ ''/'' @ acc))"

fun relative_prefix :: "string list \<Rightarrow> string" where
  "relative_prefix [] = []"
| "relative_prefix (p # ps) = (if p = [] then relative_prefix ps else relative_prefix ps @ p @ ''/'')"

definition path_resolve :: "string \<Rightarrow> string list \<Rightarrow> string" where
  "path_resolve cwd args =
     (case resolve_from_right (rev args) [] of
        Some p \<Rightarrow> ''/'' @ normalizeString p False
      | None \<Rightarrow> ''/'' @ normalizeString (cwd @ ''/'' @ relative_prefix (rev args)) False)"

text \<open>
  \<^verbatim>\<open>path.relative(from, to)\<close>: both are resolved, the common leading segments are
  dropped, one \<^verbatim>\<open>..\<close> stands for each remaining segment of \<open>from\<close>, then the rest of
  \<open>to\<close> follows.
\<close>

fun drop_common :: "string list \<Rightarrow> string list \<Rightarrow> string list \<times> string list" where
  "drop_common (a # as) (b # bs) = (if a = b then drop_common as bs else (a # as, b # bs))"
| "drop_common as bs = (as, bs)"

definition segments :: "string \<Rightarrow> string list" where
  "segments p = filter (\<lambda>s. s \<noteq> []) (split_on CHR ''/'' p)"

definition path_relative :: "string \<Rightarrow> string \<Rightarrow> string \<Rightarrow> string" where
  "path_relative cwd from to =
     (let f = path_resolve cwd [from]; t = path_resolve cwd [to]
      in case drop_common (segments f) (segments t) of
           (fs, ts) \<Rightarrow> join_with CHR ''/'' (map (\<lambda>s. ''..'') fs @ ts))"

definition starts_with :: "string \<Rightarrow> string \<Rightarrow> bool" where
  "starts_with s pre = (take (length pre) s = pre)"

definition ends_with :: "string \<Rightarrow> string \<Rightarrow> bool" where
  "ends_with s suf = (length suf \<le> length s \<and> drop (length s - length suf) s = suf)"

section \<open>The file system\<close>

text \<open>
  The part of \<^verbatim>\<open>fs\<close> the server uses. \<open>files\<close> maps a path to the document stored
  there, \<open>dirs\<close> are the directories, and \<open>denied\<close> are the paths on which the host
  refuses an operation (no permission, no space). Every call that can raise returns the
  error as a value.
\<close>

datatype errno = ENOENT | EACCES | EEXIST | EISDIR

record filesys =
  files :: "(string \<times> json) list"
  dirs :: "string list"
  denied :: "string list"

definition child_name :: "string \<Rightarrow> string \<Rightarrow> string option" where
  "child_name d p =
     (let pre = (if d = ''/'' then d else d @ ''/''); name = drop (length pre) p
      in if take (length pre) p = pre \<and> name \<noteq> [] \<and> CHR ''/'' \<notin> set name
         then Some name else None)"

definition parent_exists :: "filesys \<Rightarrow> string \<Rightarrow> bool" where
  "parent_exists fs p = list_ex (\<lambda>d. child_name d p \<noteq> None) (dirs fs)"

definition existsSync :: "filesys \<Rightarrow> string \<Rightarrow> bool" where
  "existsSync fs p = (p \<in> set (map fst (files fs)) \<or> p \<in> set (dirs fs))"

definition can_write :: "filesys \<Rightarrow> string \<Rightarrow> bool" where
  "can_write fs p = (p \<notin> set (denied fs) \<and> p \<notin> set (dirs fs) \<and> parent_exists fs p)"

definition writeFileSync :: "filesys \<Rightarrow> string \<Rightarrow> json \<Rightarrow> errno + filesys" where
  "writeFileSync fs p v =
     (if p \<in> set (denied fs) then Inl EACCES
      else if p \<in> set (dirs fs) then Inl EISDIR
      else if \<not> parent_exists fs p then Inl ENOENT
      else Inr (fs\<lparr>files := AList.update p v (files fs)\<rparr>))"

definition mkdirSync :: "filesys \<Rightarrow> string \<Rightarrow> errno + filesys" where
  "mkdirSync fs p =
     (if existsSync fs p then Inl EEXIST
      else if p \<in> set (denied fs) then Inl EACCES
      else if \<not> parent_exists fs p then Inl ENOENT
      else Inr (fs\<lparr>dirs := dirs fs @ [p]\<rparr>))"

definition unlinkSync :: "filesys \<Rightarrow> string \<Rightarrow> errno + filesys" where
  "unlinkSync fs p =
     (if p \<in> set (denied fs) then Inl EACCES
      else if p \<in> set (dirs fs) then Inl EISDIR
      else if p \<notin> set (map fst (files fs)) then Inl ENOENT
      else Inr (fs\<lparr>files := AList.delete p (files fs)\<rparr>))"

definition readdirSync :: "filesys \<Rightarrow> string \<Rightarrow> errno + string list" where
  "readdirSync fs d =
     (if d \<in> set (denied fs) then Inl EACCES
      else if d \<notin> set (dirs fs) then Inl ENOENT
      else Inr (List.map_filter (child_name d) (map fst (files fs) @ dirs fs)))"

text \<open>What a read stream opened on \<open>p\<close> yields: the document, or the stream's error.\<close>

definition readStream :: "filesys \<Rightarrow> string \<Rightarrow> errno + json" where
  "readStream fs p =
     (if p \<in> set (denied fs) then Inl EACCES
      else case map_of (files fs) p of
             Some v \<Rightarrow> Inr v
           | None \<Rightarrow> Inl (if p \<in> set (dirs fs) then EISDIR else ENOENT))"

section \<open>Server state\<close>

text \<open>
  \<open>dirname\<close> is \<^verbatim>\<open>__dirname\<close>, \<open>cwd\<close> the working directory of the process (consulted
  by \<^verbatim>\<open>path.resolve\<close> only when no argument is absolute).
\<close>

record env =
  dirname :: string
  cwd :: string

definition LOGS_FILE :: "env \<Rightarrow> string" where
  "LOGS_FILE E = path_join [dirname E, ''logs.json'']"

definition ARCHIVE_DIR :: "env \<Rightarrow> string" where
  "ARCHIVE_DIR E = path_join [dirname E, ''archives'']"

text \<open>
  A WebSocket client as the server sees it: whether \<^verbatim>\<open>readyState\<close> is \<^verbatim>\<open>OPEN\<close>,
  whether \<^verbatim>\<open>send\<close> raises, the heartbeat flag, and the messages sent to it so far
  (each the value that \<^verbatim>\<open>JSON.stringify\<close> serialises).
\<close>

record client =
  is_open :: bool
  send_throws :: bool
  isAlive :: bool
  inbox :: "json list"

text \<open>
  \<open>logs\<close> is the array \<^verbatim>\<open>logs\<close>, \<open>disk\<close> the file system, \<open>clients\<close> is
  \<^verbatim>\<open>wss.clients\<close>, and \<open>errlog\<close> collects what \<^verbatim>\<open>console.error\<close> prints (the
  message, without the error object). \<^verbatim>\<open>console.log\<close> output is not modelled.
\<close>

record server =
  logs :: "json list"
  disk :: filesys
  clients :: "client list"
  errlog :: "string list"

datatype response =
    Json nat json
  | Text nat string
  | Attachment string json

definition console_error :: "string \<Rightarrow> server \<Rightarrow> server" where
  "console_error msg st = st\<lparr>errlog := errlog st @ [msg]\<rparr>"

section \<open>Archiving and saving\<close>

definition ensureArchiveDir :: "env \<Rightarrow> server \<Rightarrow> server" where
  "ensureArchiveDir E st =
     (if \<not> existsSync (disk st) (ARCHIVE_DIR E) then
        (case mkdirSync (disk st) (ARCHIVE_DIR E) of
           Inr fs' \<Rightarrow> st\<lparr>disk := fs'\<rparr>
         | Inl err \<Rightarrow> console_error ''Error ensuring archive directory:'' st)
      else st)"

text \<open>
  \<^verbatim>\<open>archiveLogs()\<close> returns the file name or \<^verbatim>\<open>null\<close> (\<open>None\<close>). \<open>now\<close> is
  what \<^verbatim>\<open>new Date()\<close> reads. The test \<^verbatim>\<open>!logs\<close> cannot hold of an array.
\<close>

definition archiveLogs :: "env \<Rightarrow> utc \<Rightarrow> server \<Rightarrow> server \<times> string option" where
  "archiveLogs E now st =
     (let st1 = ensureArchiveDir E st
      in if logs st1 = [] then (st1, None)
         else
           let filename = archive_name now;
               filepath = path_join [ARCHIVE_DIR E, filename]
           in case writeFileSync (disk st1) filepath (stringify (JArr (logs st1))) of
                Inr fs' \<Rightarrow> (st1\<lparr>disk := fs'\<rparr>, Some filename)
              | Inl err \<Rightarrow> (console_error ''Error archiving logs:'' st1, None))"

definition saveLogs :: "env \<Rightarrow> server \<Rightarrow> server" where
  "saveLogs E st =
     (case writeFileSync (disk st) (LOGS_FILE E) (stringify (JArr (logs st))) of
        Inr fs' \<Rightarrow> st\<lparr>disk := fs'\<rparr>
      | Inl err \<Rightarrow> console_error ''Error saving logs to disk:'' st)"

section \<open>Broadcast\<close>

definition envelope :: "string \<Rightarrow> json \<Rightarrow> json" where
  "envelope ty d = JObj [(''type'', JStr ty), (''data'', d)]"

text \<open>\<^verbatim>\<open>ws.send(msg)\<close>: raises, or the message reaches the client.\<close>

definition ws_send :: "json \<Rightarrow> client \<Rightarrow> unit + client" where
  "ws_send msg c = (if send_throws c then Inl () else Inr (c\<lparr>inbox := inbox c @ [msg]\<rparr>))"

text \<open>
  \<^verbatim>\<open>wss.clients.forEach(client => { try { if (client.readyState === WebSocket.OPEN)
  client.send(msg) } catch (err) { console.error(errmsg, err) } })\<close>: the clients after the
  loop, and the lines it printed.
\<close>

fun forEach_send :: "string \<Rightarrow> json \<Rightarrow> client list \<Rightarrow> client list \<times> string list" where
  "forEach_send errmsg msg [] = ([], [])"
| "forEach_send errmsg msg (c # cs) =
     (let (cs', errs) = forEach_send errmsg msg cs
      in if is_open c then
           (case ws_send msg c of
              Inr c' \<Rightarrow> (c' # cs', errs)
            | Inl u \<Rightarrow> (c # cs', errmsg # errs))
         else (c # cs', errs))"

definition broadcast :: "string \<Rightarrow> json \<Rightarrow> server \<Rightarrow> server" where
  "broadcast errmsg msg st =
     (let (cs', errs) = forEach_send errmsg msg (clients st)
      in st\<lparr>clients := cs', errlog := errlog st @ errs\<rparr>)"

text \<open>
  \<^verbatim>\<open>wss.on('connection', ws => ...)\<close>: the new socket is marked alive and is sent the
  whole buffer; it is a member of \<^verbatim>\<open>wss.clients\<close> from then on.
\<close>

definition on_connection :: "client \<Rightarrow> server \<Rightarrow> server" where
  "on_connection ws st =
     (let ws1 = ws\<lparr>isAlive := True\<rparr>
      in case ws_send (stringify (envelope ''init'' (JArr (logs st)))) ws1 of
           Inr ws2 \<Rightarrow> st\<lparr>clients := clients st @ [ws2]\<rparr>
         | Inl u \<Rightarrow> console_error ''Failed to send initial logs to client:''
                     (st\<lparr>clients := clients st @ [ws1]\<rparr>))"

section \<open>\<^verbatim>\<open>POST /log\<close>\<close>

text \<open>\<^verbatim>\<open>archived || null\<close> and \<^verbatim>\<open>archived\<close> as they are serialised.\<close>

definition or_null :: "string option \<Rightarrow> json" where
  "or_null a = (case a of None \<Rightarrow> JNull | Some f \<Rightarrow> if f = [] then JNull else JStr f)"

definition json_of_archived :: "string option \<Rightarrow> json" where
  "json_of_archived a = (case a of None \<Rightarrow> JNull | Some f \<Rightarrow> JStr f)"

text \<open>
  The body of the sentinel branch: archive, clear, save, notify, answer. Nothing in
  it raises (each callee catches its own errors), so the enclosing \<^verbatim>\<open>catch\<close> is
  never entered.
\<close>

definition shutdown_branch :: "env \<Rightarrow> utc \<Rightarrow> server \<Rightarrow> server \<times> response" where
  "shutdown_branch E now st =
     (let (st1, archived) = archiveLogs E now st;
          st2 = st1\<lparr>logs := []\<rparr>;
          st3 = saveLogs E st2;
          st4 = broadcast ''Error notifying client of archive:''
                  (stringify (envelope ''archive''
                     (JObj [(''archived'', or_null archived), (''cleared'', JBool True)]))) st3
      in (st4, Json 200 (JObj [(''message'', JStr ''Log received and archived (shutdown detected)''),
                               (''archived'', json_of_archived archived)])))"

definition post_log :: "env \<Rightarrow> utc \<Rightarrow> json \<Rightarrow> server \<Rightarrow> server \<times> response" where
  "post_log E now body st =
     (let log = get_prop body ''log''
      in case log of
           Some v \<Rightarrow>
             if truthy log then
               let st1 = st\<lparr>logs := logs st @ [v]\<rparr>;
                   st2 = saveLogs E st1;
                   st3 = broadcast ''Error sending new log to client:''
                           (stringify (envelope ''new'' (JArr [v]))) st2
               in if is_shutdown v then shutdown_branch E now st3
                  else (st3, Json 200 (JObj [(''message'', JStr ''Log received'')]))
             else (st, Json 400 (JObj [(''error'', JStr ''No log provided'')]))
         | None \<Rightarrow> (st, Json 400 (JObj [(''error'', JStr ''No log provided'')])))"

text \<open>Submissions handled one after the other, each with the clock reading of its own request.\<close>

fun post_logs :: "env \<Rightarrow> (utc \<times> json) list \<Rightarrow> server \<Rightarrow> server" where
  "post_logs E [] st = st"
| "post_logs E ((now, body) # rs) st = post_logs E rs (fst (post_log E now body st))"

section \<open>Archive management\<close>

text \<open>\<^verbatim>\<open>GET /logs/archives\<close>\<close>

definition get_logs_archives :: "env \<Rightarrow> server \<Rightarrow> server \<times> response" where
  "get_logs_archives E st =
     (let st1 = ensureArchiveDir E st
      in case readdirSync (disk st1) (ARCHIVE_DIR E) of
           Inr names \<Rightarrow>
             (st1, Json 200 (JArr (map JStr
                     (rev (sort (filter (\<lambda>f. ends_with f ''.json'') names))))))
         | Inl err \<Rightarrow>
             (console_error ''Error listing archives:'' st1,
              Json 500 (JObj [(''error'', JStr ''Unable to list archives'')])))"

text \<open>\<^verbatim>\<open>DELETE /logs/archives/:name\<close>; \<open>name\<close> is the decoded route parameter.\<close>

definition delete_archive :: "env \<Rightarrow> string \<Rightarrow> server \<Rightarrow> server \<times> response" where
  "delete_archive E name st =
     (let safeName = basename name;
          st1 = ensureArchiveDir E st;
          dirResolved = path_resolve (cwd E) [ARCHIVE_DIR E];
          full = path_resolve (cwd E) [ARCHIVE_DIR E, safeName]
      in if \<not> starts_with full (dirResolved @ ''/'') then
           (st1, Json 400 (JObj [(''error'', JStr ''Invalid filename'')]))
         else if \<not> existsSync (disk st1) full then
           (st1, Json 404 (JObj [(''error'', JStr ''File not found'')]))
         else
           (case unlinkSync (disk st1) full of
              Inr fs' \<Rightarrow>
                (st1\<lparr>disk := fs'\<rparr>, Json 200 (JObj [(''ok'', JBool True), (''deleted'', JStr safeName)]))
            | Inl err \<Rightarrow>
                (console_error ''Error deleting archive:'' st1,
                 Json 500 (JObj [(''error'', JStr ''Failed to delete archive'')]))))"

text \<open>\<^verbatim>\<open>GET /logs/download/:name\<close>\<close>

definition download_archive :: "env \<Rightarrow> string \<Rightarrow> server \<Rightarrow> server \<times> response" where
  "download_archive E name st =
     (let safeName = basename name;
          st1 = ensureArchiveDir E st;
          dirResolved = path_resolve (cwd E) [ARCHIVE_DIR E];
          full = path_resolve (cwd E) [ARCHIVE_DIR E, safeName];
          rel = path_relative (cwd E) dirResolved full
      in if starts_with rel ''..'' \<or> isAbsolute rel then
           (st1, Text 400 ''Invalid filename'')
         else if \<not> existsSync (disk st1) full then
           (st1, Text 404 ''File not found'')
         else
           (case readStream (disk st1) full of
              Inr doc \<Rightarrow> (st1, Attachment safeName doc)
            | Inl err \<Rightarrow>
                (console_error ''Error streaming file'' st1, Text 500 ''Error reading file'')))"

section \<open>Observations on a state\<close>

text \<open>The document the durable store holds: the content of \<^verbatim>\<open>logs.json\<close>, if any.\<close>

definition persisted :: "env \<Rightarrow> server \<Rightarrow> json option" where
  "persisted E st = map_of (files (disk st)) (LOGS_FILE E)"

text \<open>Where \<^verbatim>\<open>archiveLogs\<close> writes the snapshot taken at \<open>now\<close>.\<close>

definition snapshot_path :: "env \<Rightarrow> utc \<Rightarrow> string" where
  "snapshot_path E now = path_join [ARCHIVE_DIR E, archive_name now]"

text \<open>
  Whether the file system takes the snapshot write once \<^verbatim>\<open>ensureArchiveDir\<close> has
  run: the path is not refused, is not a directory, and its directory exists.
\<close>

definition snapshot_writable :: "env \<Rightarrow> utc \<Rightarrow> server \<Rightarrow> bool" where
  "snapshot_writable E now st = can_write (disk (ensureArchiveDir E st)) (snapshot_path E now)"

text \<open>
  A client that receives the messages \<open>out\<close>, in this order, when it is open and its
  \<^verbatim>\<open>send\<close> does not raise, and nothing otherwise.
\<close>

definition deliver :: "json list \<Rightarrow> client \<Rightarrow> client" where
  "deliver out c = (if is_open c \<and> \<not> send_throws c then c\<lparr>inbox := inbox c @ out\<rparr> else c)"

text \<open>One line of \<^verbatim>\<open>console.error\<close> for every open client whose \<^verbatim>\<open>send\<close> raises.\<close>

definition send_errors :: "string \<Rightarrow> client list \<Rightarrow> string list" where
  "send_errors errmsg cs = map (\<lambda>c. errmsg) (filter (\<lambda>c. is_open c \<and> send_throws c) cs)"

text \<open>
  The text \<open>s\<close> contains \<^verbatim>\<open>shutdown\<close> as a substring, letter case ignored: some
  stretch of eight characters of \<open>s\<close> reads \<^verbatim>\<open>shutdown\<close> once its capitals are
  lowered.
\<close>

definition to_lower :: "char \<Rightarrow> char" where
  "to_lower c =
     (case map_of (zip ''ABCDEFGHIJKLMNOPQRSTUVWXYZ'' ''abcdefghijklmnopqrstuvwxyz'') c of
        Some l \<Rightarrow> l
      | None \<Rightarrow> c)"

definition contains_ci :: "string \<Rightarrow> string \<Rightarrow> bool" where
  "contains_ci s pat \<longleftrightarrow> (\<exists>u w v. s = u @ w @ v \<and> map to_lower w = pat)"

text \<open>
  \<^verbatim>\<open>__dirname\<close> as Node supplies it: an absolute path in normal form, a slash before
  each of its segments, none of them empty, \<^verbatim>\<open>.\<close> or \<^verbatim>\<open>..\<close>.
\<close>

definition clean_seg :: "string \<Rightarrow> bool" where
  "clean_seg s \<longleftrightarrow> s \<noteq> [] \<and> s \<noteq> ''.'' \<and> s \<noteq> ''..'' \<and> CHR ''/'' \<notin> set s"

definition norm_abs :: "string \<Rightarrow> bool" where
  "norm_abs r \<longleftrightarrow>
     (case split_on CHR ''/'' r of
        [] \<Rightarrow> False
      | s # segs \<Rightarrow> s = [] \<and> segs \<noteq> [] \<and> list_all clean_seg segs)"

text \<open>
  A request \<open>r\<close> (clock reading and body) that submits the payload \<open>v\<close>, where
  \<open>v\<close> is truthy.
\<close>

definition valid_submission :: "utc \<times> json \<Rightarrow> json \<Rightarrow> bool" where
  "valid_submission r v \<longleftrightarrow> get_prop (snd r) ''log'' = Some v \<and> truthy (Some v)"

text \<open>Of the payloads \<open>vs\<close>, in arrival order, those that came after the last sentinel.\<close>

definition since_last_shutdown :: "json list \<Rightarrow> json list" where
  "since_last_shutdown vs = rev (takeWhile (\<lambda>v. \<not> is_shutdown v) (rev vs))"

text \<open>
  The identifier \<open>name\<close>, resolved against the archive directory, does not lie below
  it: the test of the delete handler, applied to the identifier itself.
\<close>

definition resolves_outside :: "env \<Rightarrow> string \<Rightarrow> bool" where
  "resolves_outside E name \<longleftrightarrow>
     \<not> starts_with (path_resolve (cwd E) [ARCHIVE_DIR E, name])
          (path_resolve (cwd E) [ARCHIVE_DIR E] @ ''/'')"

section \<open>A concrete deployment\<close>

text \<open>
  The container of the repository's Dockerfile runs the server in \<^verbatim>\<open>/usr/src/app\<close>.
  The states below are the concrete inputs at which the results are evaluated.
\<close>

definition ex_env :: env where
  "ex_env = \<lparr>dirname = ''/usr/src/app'', cwd = ''/usr/src/app''\<rparr>"

definition ex_disk :: filesys where
  "ex_disk = \<lparr>files = [], dirs = [''/usr/src/app''], denied = []\<rparr>"

definition ex_client :: client where
  "ex_client = \<lparr>is_open = True, send_throws = False, isAlive = True, inbox = []\<rparr>"

definition ex_server :: server where
  "ex_server = \<lparr>logs = [], disk = ex_disk, clients = [ex_client], errlog = []\<rparr>"

definition ex_now :: utc where
  "ex_now = \<lparr>year = 2026, month = 11, day = 3, hour = 9, minute = 5, second = 7, millis = 42\<rparr>"

text \<open>The same deployment on a disk that refuses every write to \<^verbatim>\<open>logs.json\<close>.\<close>

definition ex_disk_nosave :: filesys where
  "ex_disk_nosave = \<lparr>files = [], dirs = [''/usr/src/app''], denied = [''/usr/src/app/logs.json'']\<rparr>"

definition ex_server_nosave :: server where
  "ex_server_nosave = \<lparr>logs = [], disk = ex_disk_nosave, clients = [ex_client], errlog = []\<rparr>"

text \<open>A disk on which the archive directory cannot be made.\<close>

definition ex_disk_noarchive :: filesys where
  "ex_disk_noarchive = \<lparr>files = [], dirs = [''/usr/src/app''], denied = [''/usr/src/app/archives'']\<rparr>"

definition ex_server_noarchive :: server where
  "ex_server_noarchive = \<lparr>logs = [], disk = ex_disk_noarchive, clients = [ex_client], errlog = []\<rparr>"

text \<open>A disk that refuses both the write of \<^verbatim>\<open>logs.json\<close> and the archive directory.\<close>

definition ex_disk_refusing :: filesys where
  "ex_disk_refusing =
     \<lparr>files = [(''/usr/src/app/logs.json'', JArr [JStr ''boot''])], dirs = [''/usr/src/app''],
      denied = [''/usr/src/app/logs.json'', ''/usr/src/app/archives'']\<rparr>"

definition ex_server_refusing :: server where
  "ex_server_refusing =
     \<lparr>logs = [JStr ''boot''], disk = ex_disk_refusing, clients = [ex_client], errlog = []\<rparr>"

text \<open>
  The doubles 7 and positive infinity (what \<^verbatim>\<open>JSON.parse\<close> reads from \<^verbatim>\<open>1e400\<close>),
  and negative zero.
\<close>

definition seven :: double where
  "seven = 0x401C000000000000"

definition infinity :: double where
  "infinity = 0x7FF0000000000000"

definition negative_zero :: double where
  "negative_zero = 0x8000000000000000"

text \<open>An archive directory with three snapshots and a stray file, and two more clock readings.\<close>

definition ex_t1 :: utc where
  "ex_t1 = \<lparr>year = 2025, month = 12, day = 31, hour = 23, minute = 59, second = 59, millis = 999\<rparr>"

definition ex_t2 :: utc where
  "ex_t2 = \<lparr>year = 2026, month = 1, day = 2, hour = 0, minute = 0, second = 0, millis = 0\<rparr>"

definition ex_disk_archives :: filesys where
  "ex_disk_archives =
     \<lparr>files = [(''/usr/src/app/archives/logs-2026-01-02T00-00-00-000Z.json'', JArr [JStr ''b'']),
               (''/usr/src/app/archives/notes.txt'', JStr ''n''),
               (''/usr/src/app/archives/logs-2026-11-03T09-05-07-042Z.json'', JArr [JStr ''c'']),
               (''/usr/src/app/logs.json'', JArr []),
               (''/usr/src/app/archives/logs-2025-12-31T23-59-59-999Z.json'', JArr [JStr ''a''])],
      dirs = [''/usr/src/app'', ''/usr/src/app/archives''], denied = []\<rparr>"

definition ex_server_archives :: server where
  "ex_server_archives = \<lparr>logs = [], disk = ex_disk_archives, clients = [], errlog = []\<rparr>"


section \<open>Paths below \<^verbatim>\<open>__dirname\<close>\<close>

lemma split_on_nonempty: "split_on d s \<noteq> []"
  by (induction s) (auto split: list.splits)

lemma split_on_no_sep: "d \<notin> set s \<Longrightarrow> split_on d s = [s]"
  by (induction s) auto

lemma split_on_append_sep: "split_on d (xs @ d # ys) = split_on d xs @ split_on d ys"
  by (induction xs) (auto split: list.splits simp: split_on_nonempty)

lemma join_with_snoc: "xs \<noteq> [] \<Longrightarrow> join_with d (xs @ [s]) = join_with d xs @ d # s"
  by (induction d xs rule: join_with.induct) auto

lemma join_with_Cons: "xs \<noteq> [] \<Longrightarrow> join_with d (s # xs) = s @ d # join_with d xs"
  by (cases xs) auto

lemma join_split: "join_with d (split_on d s) = s"
proof (induction s)
  case Nil
  then show ?case by simp
next
  case (Cons c s)
  show ?case
  proof (cases "c = d")
    case True
    with Cons show ?thesis by (simp add: join_with_Cons split_on_nonempty)
  next
    case False
    obtain w ws where w: "split_on d s = w # ws"
      using split_on_nonempty [of d s] by (cases "split_on d s") auto
    with Cons False show ?thesis by (cases ws) auto
  qed
qed

lemma norm_segs_clean: "list_all clean_seg xs \<Longrightarrow> norm_segs allow acc xs = acc @ xs"
  by (induction xs arbitrary: acc) (auto simp: clean_seg_def)

lemma norm_absD:
  assumes "norm_abs r"
  obtains segs where "split_on CHR ''/'' r = [] # segs" "segs \<noteq> []" "list_all clean_seg segs"
    "r = CHR ''/'' # join_with CHR ''/'' segs"
proof -
  from assms obtain segs where s: "split_on CHR ''/'' r = [] # segs" "segs \<noteq> []" "list_all clean_seg segs"
    by (auto simp: norm_abs_def split: list.splits)
  have "r = join_with CHR ''/'' ([] # segs)" using join_split [of "CHR ''/''" r] s by simp
  with s have "r = CHR ''/'' # join_with CHR ''/'' segs" by (simp add: join_with_Cons)
  with s that show thesis by blast
qed

lemma norm_abs_child:
  assumes "norm_abs r" "clean_seg s"
  shows "norm_abs (r @ CHR ''/'' # s)"
proof -
  from assms(1) obtain segs where s: "split_on CHR ''/'' r = [] # segs" "segs \<noteq> []" "list_all clean_seg segs"
    by (rule norm_absD)
  have "split_on CHR ''/'' (r @ CHR ''/'' # s) = [] # (segs @ [s])"
    using s assms(2) by (simp add: split_on_append_sep split_on_no_sep clean_seg_def)
  with s assms(2) show ?thesis by (simp add: norm_abs_def)
qed

lemma norm_abs_nonempty: "norm_abs r \<Longrightarrow> r \<noteq> [] \<and> isAbsolute r"
  by (erule norm_absD) (simp add: isAbsolute_def)

lemma norm_segs_append:
  "norm_segs allow acc (xs @ ys) = norm_segs allow (norm_segs allow acc xs) ys"
  by (induction xs arbitrary: acc) auto

lemma normalizeString_abs:
  assumes "split_on CHR ''/'' r = [] # segs" "list_all clean_seg segs"
  shows "normalizeString (r @ CHR ''/'' # t) False =
         join_with CHR ''/'' (norm_segs False segs (split_on CHR ''/'' t))"
proof -
  have "norm_segs False [] (([] # segs) @ split_on CHR ''/'' t) =
        norm_segs False (norm_segs False [] ([] # segs)) (split_on CHR ''/'' t)"
    by (rule norm_segs_append)
  also have "norm_segs False [] ([] # segs) = segs"
    using assms(2) by (simp add: norm_segs_clean)
  finally show ?thesis using assms(1) by (simp add: normalizeString_def split_on_append_sep)
qed

lemma path_join_child:
  assumes "norm_abs r" "clean_seg s"
  shows "path_join [r, s] = r @ CHR ''/'' # s"
proof -
  from assms(1) obtain segs where s: "split_on CHR ''/'' r = [] # segs" "segs \<noteq> []"
    "list_all clean_seg segs" "r = CHR ''/'' # join_with CHR ''/'' segs"
    by (rule norm_absD)
  have ns: "normalizeString (r @ CHR ''/'' # s) False = join_with CHR ''/'' (segs @ [s])"
    using assms(2) s(3)
    by (simp add: normalizeString_abs [OF s(1) s(3)] split_on_no_sep clean_seg_def)
  have ne: "join_with CHR ''/'' (segs @ [s]) \<noteq> []"
    using s(2) by (simp add: join_with_snoc)
  have "s \<noteq> []" "CHR ''/'' \<notin> set s" using assms(2) by (simp_all add: clean_seg_def)
  then have "last s \<noteq> CHR ''/''" using last_in_set [of s] by metis
  then have l: "last (r @ CHR ''/'' # s) \<noteq> CHR ''/''"
    using \<open>s \<noteq> []\<close> by simp
  have r0: "r \<noteq> []" "isAbsolute (r @ CHR ''/'' # s)"
    using s(4) by (simp_all add: isAbsolute_def)
  have sne: "s \<noteq> []" using assms(2) by (simp add: clean_seg_def)
  have "path_join [r, s] = normalize (r @ CHR ''/'' # s)"
    using r0 sne by (simp add: path_join_def)
  also have "\<dots> = CHR ''/'' # join_with CHR ''/'' (segs @ [s])"
    using r0 l ne ns by (simp add: normalize_def Let_def)
  also have "\<dots> = r @ CHR ''/'' # s"
    using s(2) s(4) by (simp add: join_with_snoc)
  finally show ?thesis .
qed

lemma clean_logs_json: "clean_seg ''logs.json''" by (simp add: clean_seg_def)
lemma clean_archives: "clean_seg ''archives''" by (simp add: clean_seg_def)

lemma LOGS_FILE_eq: "norm_abs (dirname E) \<Longrightarrow> LOGS_FILE E = dirname E @ ''/logs.json''"
  by (simp add: LOGS_FILE_def path_join_child clean_logs_json)

lemma ARCHIVE_DIR_eq: "norm_abs (dirname E) \<Longrightarrow> ARCHIVE_DIR E = dirname E @ ''/archives''"
  by (simp add: ARCHIVE_DIR_def path_join_child clean_archives)

lemma norm_abs_ARCHIVE_DIR: "norm_abs (dirname E) \<Longrightarrow> norm_abs (ARCHIVE_DIR E)"
  using norm_abs_child [of "dirname E" "''archives''"] by (simp add: ARCHIVE_DIR_eq clean_archives)

lemma digit_cases: "digit n \<in> set ''0123456789''"
proof -
  have "n mod 10 = 0 \<or> n mod 10 = 1 \<or> n mod 10 = 2 \<or> n mod 10 = 3 \<or> n mod 10 = 4 \<or>
        n mod 10 = 5 \<or> n mod 10 = 6 \<or> n mod 10 = 7 \<or> n mod 10 = 8 \<or> n mod 10 = 9"
    by arith
  then show ?thesis by (auto simp: digit_def)
qed

lemma digit_not_special:
  "digit n \<noteq> CHR ''/''" "digit n \<noteq> CHR '':''" "digit n \<noteq> CHR ''.''"
  "CHR ''/'' \<noteq> digit n" "CHR '':'' \<noteq> digit n" "CHR ''.'' \<noteq> digit n"
  using digit_cases [of n] by auto

lemma archive_name_eq:
  "archive_name t = ''logs-'' @ pad4 (year t) @ ''-'' @ pad2 (month t) @ ''-'' @ pad2 (day t) @ ''T'' @
     pad2 (hour t) @ ''-'' @ pad2 (minute t) @ ''-'' @ pad2 (second t) @ ''-'' @
     pad3 (millis t) @ ''Z.json''"
  by (simp add: archive_name_def toISOString_def replace_colon_dot_def pad2_def pad3_def pad4_def
        digit_not_special)



section \<open>Writing files and sending messages\<close>

lemma can_write_files_irrelevant:
  "can_write (fs\<lparr>files := f\<rparr>) p = can_write fs p"
  by (simp add: can_write_def parent_exists_def)

lemma writeFileSync_eq:
  "writeFileSync fs p v =
     (if can_write fs p then Inr (fs\<lparr>files := AList.update p v (files fs)\<rparr>)
      else Inl (if p \<in> set (denied fs) then EACCES
                else if p \<in> set (dirs fs) then EISDIR else ENOENT))"
  by (simp add: writeFileSync_def can_write_def)

lemma forEach_send_eq: "forEach_send e m cs = (map (deliver [m]) cs, send_errors e cs)"
  by (induction cs) (auto simp: deliver_def send_errors_def ws_send_def)

lemma broadcast_eq:
  "broadcast e m st =
     st\<lparr>clients := map (deliver [m]) (clients st),
        errlog := errlog st @ send_errors e (clients st)\<rparr>"
  by (simp add: broadcast_def forEach_send_eq)

lemma is_shutdown_nonstring: "\<forall>s. v \<noteq> JStr s \<Longrightarrow> \<not> is_shutdown v"
  by (cases v) auto

lemma ensureArchiveDir_files: "files (disk (ensureArchiveDir E st)) = files (disk st)"
  by (simp add: ensureArchiveDir_def mkdirSync_def console_error_def)


lemma ensureArchiveDir_logs: "logs (ensureArchiveDir E st) = logs st"
  by (simp add: ensureArchiveDir_def mkdirSync_def console_error_def split: sum.splits)

lemma ensureArchiveDir_clients: "clients (ensureArchiveDir E st) = clients st"
  by (simp add: ensureArchiveDir_def mkdirSync_def console_error_def split: sum.splits)

lemma deliver_deliver: "deliver ys (deliver xs c) = deliver (xs @ ys) c"
  by (simp add: deliver_def)

lemma archive_name_nonempty: "archive_name now \<noteq> []"
  by (simp add: archive_name_def)

lemma can_write_cong:
  "dirs fs = dirs fs' \<Longrightarrow> denied fs = denied fs' \<Longrightarrow> can_write fs p = can_write fs' p"
  by (simp add: can_write_def parent_exists_def)

lemma existsSync_update:
  "existsSync (fs\<lparr>files := AList.update k v (files fs)\<rparr>) p = (p = k \<or> existsSync fs p)"
  by (auto simp: existsSync_def dom_update)

lemma ensureArchiveDir_disk:
  "disk (ensureArchiveDir E st) =
     (if \<not> existsSync (disk st) (ARCHIVE_DIR E) \<and> ARCHIVE_DIR E \<notin> set (denied (disk st)) \<and>
         parent_exists (disk st) (ARCHIVE_DIR E)
      then (disk st)\<lparr>dirs := dirs (disk st) @ [ARCHIVE_DIR E]\<rparr> else disk st)"
  by (simp add: ensureArchiveDir_def mkdirSync_def console_error_def)

lemma ensureArchiveDir_disk_cong:
  assumes "existsSync (disk st') (ARCHIVE_DIR E) = existsSync (disk st) (ARCHIVE_DIR E)"
    and "dirs (disk st') = dirs (disk st)" and "denied (disk st') = denied (disk st)"
  shows "dirs (disk (ensureArchiveDir E st')) = dirs (disk (ensureArchiveDir E st)) \<and>
         denied (disk (ensureArchiveDir E st')) = denied (disk (ensureArchiveDir E st)) \<and>
         files (disk (ensureArchiveDir E st')) = files (disk st')"
  using assms by (simp add: ensureArchiveDir_disk parent_exists_def)

lemma parent_exists_mono:
  "parent_exists fs p \<Longrightarrow> parent_exists (fs\<lparr>dirs := dirs fs @ ds\<rparr>) p"
  by (auto simp: parent_exists_def list_ex_iff)

lemma ensureArchiveDir_errlog_disk:
  "disk (console_error m st) = disk st" "logs (console_error m st) = logs st"
  "clients (console_error m st) = clients st"
  by (simp_all add: console_error_def)

section \<open>The sentinel test is a substring test\<close>

lemma canonicalize_eq_upper:
  "canonicalize c = CHR ''S'' \<longleftrightarrow> c = CHR ''s'' \<or> c = CHR ''S''"
  "canonicalize c = CHR ''H'' \<longleftrightarrow> c = CHR ''h'' \<or> c = CHR ''H''"
  "canonicalize c = CHR ''U'' \<longleftrightarrow> c = CHR ''u'' \<or> c = CHR ''U''"
  "canonicalize c = CHR ''T'' \<longleftrightarrow> c = CHR ''t'' \<or> c = CHR ''T''"
  "canonicalize c = CHR ''D'' \<longleftrightarrow> c = CHR ''d'' \<or> c = CHR ''D''"
  "canonicalize c = CHR ''O'' \<longleftrightarrow> c = CHR ''o'' \<or> c = CHR ''O''"
  "canonicalize c = CHR ''W'' \<longleftrightarrow> c = CHR ''w'' \<or> c = CHR ''W''"
  "canonicalize c = CHR ''N'' \<longleftrightarrow> c = CHR ''n'' \<or> c = CHR ''N''"
  by (simp_all add: canonicalize_def)

lemma to_lower_eq_lower:
  "to_lower c = CHR ''s'' \<longleftrightarrow> c = CHR ''s'' \<or> c = CHR ''S''"
  "to_lower c = CHR ''h'' \<longleftrightarrow> c = CHR ''h'' \<or> c = CHR ''H''"
  "to_lower c = CHR ''u'' \<longleftrightarrow> c = CHR ''u'' \<or> c = CHR ''U''"
  "to_lower c = CHR ''t'' \<longleftrightarrow> c = CHR ''t'' \<or> c = CHR ''T''"
  "to_lower c = CHR ''d'' \<longleftrightarrow> c = CHR ''d'' \<or> c = CHR ''D''"
  "to_lower c = CHR ''o'' \<longleftrightarrow> c = CHR ''o'' \<or> c = CHR ''O''"
  "to_lower c = CHR ''w'' \<longleftrightarrow> c = CHR ''w'' \<or> c = CHR ''W''"
  "to_lower c = CHR ''n'' \<longleftrightarrow> c = CHR ''n'' \<or> c = CHR ''N''"
  by (simp_all add: to_lower_def)

lemma canon_lower:
  "CHR ''S'' = canonicalize c \<longleftrightarrow> to_lower c = CHR ''s''"
  "CHR ''H'' = canonicalize c \<longleftrightarrow> to_lower c = CHR ''h''"
  "CHR ''U'' = canonicalize c \<longleftrightarrow> to_lower c = CHR ''u''"
  "CHR ''T'' = canonicalize c \<longleftrightarrow> to_lower c = CHR ''t''"
  "CHR ''D'' = canonicalize c \<longleftrightarrow> to_lower c = CHR ''d''"
  "CHR ''O'' = canonicalize c \<longleftrightarrow> to_lower c = CHR ''o''"
  "CHR ''W'' = canonicalize c \<longleftrightarrow> to_lower c = CHR ''w''"
  "CHR ''N'' = canonicalize c \<longleftrightarrow> to_lower c = CHR ''n''"
  using canonicalize_eq_upper [of c] to_lower_eq_lower [of c] by metis+

lemma matches_at_iff:
  "matches_at pat s \<longleftrightarrow>
     (\<exists>w v. s = w @ v \<and> list_all2 (\<lambda>p c. canonicalize p = canonicalize c) pat w)"
proof (induction pat s rule: matches_at.induct)
  case (1 s)
  then show ?case by simp
next
  case (2 p ps)
  then show ?case by (simp add: list_all2_Cons1)
next
  case (3 p ps c cs)
  show ?case
  proof
    assume "matches_at (p # ps) (c # cs)"
    with 3 obtain w v where "cs = w @ v" "list_all2 (\<lambda>p c. canonicalize p = canonicalize c) ps w"
      "canonicalize p = canonicalize c" by auto
    then have "c # cs = (c # w) @ v \<and> list_all2 (\<lambda>p c. canonicalize p = canonicalize c) (p # ps) (c # w)"
      by simp
    then show "\<exists>w v. c # cs = w @ v \<and> list_all2 (\<lambda>p c. canonicalize p = canonicalize c) (p # ps) w"
      by blast
  next
    assume "\<exists>w v. c # cs = w @ v \<and> list_all2 (\<lambda>p c. canonicalize p = canonicalize c) (p # ps) w"
    then obtain w v where wv: "c # cs = w @ v" "list_all2 (\<lambda>p c. canonicalize p = canonicalize c) (p # ps) w"
      by blast
    from wv(2) obtain c' w' where w: "w = c' # w'" "canonicalize p = canonicalize c'"
      "list_all2 (\<lambda>p c. canonicalize p = canonicalize c) ps w'"
      by (auto simp: list_all2_Cons1)
    with wv(1) have "c' = c" "cs = w' @ v" by simp_all
    with w 3 show "matches_at (p # ps) (c # cs)" by auto
  qed
qed

lemma matches_at_shutdown:
  "matches_at ''shutdown'' s \<longleftrightarrow> (\<exists>w v. s = w @ v \<and> map to_lower w = ''shutdown'')"
proof -
  have "list_all2 (\<lambda>p c. canonicalize p = canonicalize c) ''shutdown'' w \<longleftrightarrow>
        map to_lower w = ''shutdown''" for w
    by (simp add: list_all2_Cons1 map_eq_Cons_conv canonicalize_def [of "CHR ''s''"]
          canonicalize_def [of "CHR ''h''"] canonicalize_def [of "CHR ''u''"]
          canonicalize_def [of "CHR ''t''"] canonicalize_def [of "CHR ''d''"]
          canonicalize_def [of "CHR ''o''"] canonicalize_def [of "CHR ''w''"]
          canonicalize_def [of "CHR ''n''"] canon_lower)
  then show ?thesis unfolding matches_at_iff by (simp only:)
qed

lemma regex_test_i_iff:
  "regex_test_i pat s \<longleftrightarrow> (\<exists>u t. s = u @ t \<and> matches_at pat t)"
proof (induction s)
  case Nil
  then show ?case by simp
next
  case (Cons c cs)
  show ?case
  proof
    assume "regex_test_i pat (c # cs)"
    then consider "matches_at pat (c # cs)" | "regex_test_i pat cs" by auto
    then show "\<exists>u t. c # cs = u @ t \<and> matches_at pat t"
    proof cases
      case 1
      then have "c # cs = [] @ (c # cs) \<and> matches_at pat (c # cs)" by simp
      then show ?thesis by blast
    next
      case 2
      with Cons obtain u t where "cs = u @ t" "matches_at pat t" by auto
      then have "c # cs = (c # u) @ t \<and> matches_at pat t" by simp
      then show ?thesis by blast
    qed
  next
    assume "\<exists>u t. c # cs = u @ t \<and> matches_at pat t"
    then obtain u t where ut: "c # cs = u @ t" "matches_at pat t" by blast
    show "regex_test_i pat (c # cs)"
    proof (cases u)
      case Nil
      with ut have "matches_at pat (c # cs)" by simp
      then show ?thesis by simp
    next
      case (Cons a u')
      with ut have "cs = u' @ t" by simp
      with ut(2) Cons.IH show ?thesis by auto
    qed
  qed
qed

lemma contains_ciI: "s = u @ w @ v \<Longrightarrow> map to_lower w = pat \<Longrightarrow> contains_ci s pat"
  unfolding contains_ci_def by (intro exI conjI)

lemma contains_ciE:
  assumes "contains_ci s pat"
  obtains u w v where "s = u @ w @ v" "map to_lower w = pat"
  using assms unfolding contains_ci_def by (elim exE conjE)

lemma is_shutdown_iff: "is_shutdown (JStr s) \<longleftrightarrow> contains_ci s ''shutdown''"
proof
  assume "is_shutdown (JStr s)"
  then have "regex_test_i ''shutdown'' s" by simp
  then have "\<exists>u t. s = u @ t \<and> matches_at ''shutdown'' t" by (simp only: regex_test_i_iff)
  then obtain u t where ut: "s = u @ t" "matches_at ''shutdown'' t" by (elim exE conjE)
  from ut(2) have "\<exists>w v. t = w @ v \<and> map to_lower w = ''shutdown''"
    by (simp only: matches_at_shutdown)
  then obtain w v where wv: "t = w @ v" "map to_lower w = ''shutdown''" by (elim exE conjE)
  from ut(1) wv(1) have "s = u @ w @ v" by (simp only:)
  then show "contains_ci s ''shutdown''" using wv(2) by (rule contains_ciI)
next
  assume "contains_ci s ''shutdown''"
  then obtain u w v where uwv: "s = u @ w @ v" "map to_lower w = ''shutdown''"
    by (rule contains_ciE)
  have "\<exists>w' v'. w @ v = w' @ v' \<and> map to_lower w' = ''shutdown''"
    using uwv(2) by (intro exI [of _ w] exI [of _ v] conjI refl)
  then have "matches_at ''shutdown'' (w @ v)" by (simp only: matches_at_shutdown)
  then have "\<exists>u' t. s = u' @ t \<and> matches_at ''shutdown'' t"
    using uwv(1) by (intro exI [of _ u] exI [of _ "w @ v"] conjI)
  then have "regex_test_i ''shutdown'' s" by (simp only: regex_test_i_iff)
  then show "is_shutdown (JStr s)" by simp
qed

lemma contains_ci_nonempty:
  assumes "contains_ci s ''shutdown''"
  shows "s \<noteq> []"
proof -
  from assms obtain u w v where uwv: "s = u @ w @ v" "map to_lower w = ''shutdown''"
    by (rule contains_ciE)
  have "w \<noteq> []"
  proof
    assume "w = []"
    with uwv(2) show False by simp
  qed
  with uwv(1) show ?thesis by simp
qed

section \<open>Children of a directory\<close>






section \<open>Serialising\<close>

lemma stringify_envelope: "stringify (envelope ty d) = envelope ty (stringify d)"
  by (simp add: envelope_def)

lemma exact_stringify: "exact v \<Longrightarrow> stringify v = v"
proof (induction v)
  case (JArr xs)
  then show ?case by (simp add: list_all_iff map_idI)
next
  case (JObj kvs)
  have "map_prod id stringify kv = kv" if "kv \<in> set kvs" for kv
  proof -
    obtain k v where kv: "kv = (k, v)" by (cases kv)
    with that JObj.prems have "exact v" by (auto simp: list_all_iff)
    with JObj.IH [of kv v] that kv show ?thesis by simp
  qed
  then show ?case by (simp add: map_idI)
qed simp_all

lemma exact_stringify_list: "list_all exact xs \<Longrightarrow> map stringify xs = xs"
  by (simp add: list_all_iff exact_stringify map_idI)

section \<open>Where the two files lie\<close>

lemma norm_segs_clean_last:
  "clean_seg s \<Longrightarrow> norm_segs allow acc (xs @ [s]) = norm_segs allow acc xs @ [s]"
  by (simp add: norm_segs_append clean_seg_def)

lemma path_join_ends:
  assumes "clean_seg s"
  shows "\<exists>pre. path_join [r, s] = pre @ s"
proof -
  have s: "s \<noteq> []" "CHR ''/'' \<notin> set s" using assms by (simp_all add: clean_seg_def)
  then have ls: "last s \<noteq> CHR ''/''" using last_in_set [of s] by metis
  define p where "p = (if r = [] then s else r @ CHR ''/'' # s)"
  have pj: "path_join [r, s] = normalize p"
    using s(1) by (simp add: path_join_def p_def)
  have pne: "p \<noteq> []" "last p \<noteq> CHR ''/''" using s(1) ls by (simp_all add: p_def)
  obtain xs where xs: "split_on CHR ''/'' p = xs @ [s]"
  proof (cases "r = []")
    case True
    then have "split_on CHR ''/'' p = [] @ [s]" using s(2) by (simp add: p_def split_on_no_sep)
    then show ?thesis by (rule that)
  next
    case False
    then have "split_on CHR ''/'' p = split_on CHR ''/'' r @ [s]"
      using s(2) by (simp add: p_def split_on_append_sep split_on_no_sep)
    then show ?thesis by (rule that)
  qed
  define acc where "acc = norm_segs (\<not> isAbsolute p) [] xs"
  have q: "normalizeString p (\<not> isAbsolute p) = join_with CHR ''/'' (acc @ [s])"
    by (simp add: normalizeString_def xs norm_segs_clean_last [OF assms] acc_def)
  have "\<exists>pre. join_with CHR ''/'' (acc @ [s]) = pre @ s"
  proof (cases "acc = []")
    case True
    then have "join_with CHR ''/'' (acc @ [s]) = [] @ s" by simp
    then show ?thesis by blast
  next
    case False
    then have "join_with CHR ''/'' (acc @ [s]) = (join_with CHR ''/'' acc @ ''/'') @ s"
      by (simp add: join_with_snoc)
    then show ?thesis by blast
  qed
  then obtain pre where pre: "join_with CHR ''/'' (acc @ [s]) = pre @ s" by blast
  then have "normalize p = ((if isAbsolute p then ''/'' else []) @ pre) @ s"
    using pne s(1) by (simp add: normalize_def Let_def q)
  with pj show ?thesis by metis
qed

lemma LOGS_FILE_neq_ARCHIVE_DIR: "LOGS_FILE E \<noteq> ARCHIVE_DIR E"
proof
  assume eq: "LOGS_FILE E = ARCHIVE_DIR E"
  obtain a where a: "LOGS_FILE E = a @ ''logs.json''"
    using path_join_ends [OF clean_logs_json] unfolding LOGS_FILE_def by blast
  obtain b where b: "ARCHIVE_DIR E = b @ ''archives''"
    using path_join_ends [OF clean_archives] unfolding ARCHIVE_DIR_def by blast
  have "last (LOGS_FILE E) = CHR ''n''" unfolding a by simp
  moreover have "last (ARCHIVE_DIR E) = CHR ''s''" unfolding b by simp
  ultimately show False using eq by simp
qed


section \<open>Saving\<close>

lemma saveLogs_ok:
  "can_write (disk st) (LOGS_FILE E) \<Longrightarrow>
   saveLogs E st =
     st\<lparr>disk := (disk st)\<lparr>files := AList.update (LOGS_FILE E) (JArr (map stringify (logs st)))
                                      (files (disk st))\<rparr>\<rparr>"
  by (simp add: saveLogs_def writeFileSync_eq)

lemma saveLogs_fail:
  "\<not> can_write (disk st) (LOGS_FILE E) \<Longrightarrow>
   saveLogs E st = console_error ''Error saving logs to disk:'' st"
  by (simp add: saveLogs_def writeFileSync_eq)

lemma saveLogs_logs: "logs (saveLogs E st) = logs st"
  by (cases "can_write (disk st) (LOGS_FILE E)")
     (simp_all add: saveLogs_ok saveLogs_fail console_error_def)

lemma saveLogs_clients: "clients (saveLogs E st) = clients st"
  by (cases "can_write (disk st) (LOGS_FILE E)")
     (simp_all add: saveLogs_ok saveLogs_fail console_error_def)

lemma saveLogs_can_write: "can_write (disk (saveLogs E st)) p = can_write (disk st) p"
  by (cases "can_write (disk st) (LOGS_FILE E)")
     (simp_all add: saveLogs_ok saveLogs_fail console_error_def can_write_files_irrelevant)

lemma saveLogs_persisted:
  "can_write (disk st) (LOGS_FILE E) \<Longrightarrow>
   persisted E (saveLogs E st) = Some (JArr (map stringify (logs st)))"
  by (simp add: saveLogs_ok persisted_def update_conv')

lemma saveLogs_other_files:
  "p \<noteq> LOGS_FILE E \<Longrightarrow> map_of (files (disk (saveLogs E st))) p = map_of (files (disk st)) p"
  by (cases "can_write (disk st) (LOGS_FILE E)")
     (simp_all add: saveLogs_ok saveLogs_fail console_error_def update_conv')

lemma saveLogs_refused_disk:
  "\<not> can_write (disk st) (LOGS_FILE E) \<Longrightarrow> disk (saveLogs E st) = disk st"
  by (simp add: saveLogs_fail console_error_def)

section \<open>The two paths through \<^verbatim>\<open>POST /log\<close>\<close>

lemma post_log_plain:
  assumes "get_prop body ''log'' = Some v" "truthy (Some v)" "\<not> is_shutdown v"
  shows "post_log E now body st =
     (broadcast ''Error sending new log to client:'' (envelope ''new'' (JArr [stringify v]))
        (saveLogs E (st\<lparr>logs := logs st @ [v]\<rparr>)),
      Json 200 (JObj [(''message'', JStr ''Log received'')]))"
  using assms by (simp add: post_log_def Let_def stringify_envelope)

lemma post_log_sentinel:
  assumes "get_prop body ''log'' = Some v" "truthy (Some v)" "is_shutdown v"
  shows "post_log E now body st =
     shutdown_branch E now
       (broadcast ''Error sending new log to client:'' (envelope ''new'' (JArr [stringify v]))
          (saveLogs E (st\<lparr>logs := logs st @ [v]\<rparr>)))"
  using assms by (simp add: post_log_def Let_def stringify_envelope)

lemma post_log_rejected:
  assumes "\<not> truthy (get_prop body ''log'')"
  shows "post_log E now body st = (st, Json 400 (JObj [(''error'', JStr ''No log provided'')]))"
  using assms by (cases "get_prop body ''log''") (simp_all add: post_log_def)

section \<open>Archiving\<close>

lemma archiveLogs_empty:
  "logs st = [] \<Longrightarrow> archiveLogs E now st = (ensureArchiveDir E st, None)"
  by (simp add: archiveLogs_def ensureArchiveDir_logs)

lemma archiveLogs_fail:
  assumes "logs st \<noteq> []" "\<not> can_write (disk (ensureArchiveDir E st)) (snapshot_path E now)"
  shows "archiveLogs E now st = (console_error ''Error archiving logs:'' (ensureArchiveDir E st), None)"
  using assms
  by (simp add: archiveLogs_def Let_def ensureArchiveDir_logs writeFileSync_eq snapshot_path_def)


lemma archiveLogs_clients: "clients (fst (archiveLogs E now st)) = clients st"
  by (simp add: archiveLogs_def Let_def ensureArchiveDir_clients console_error_def split: sum.splits)

lemma archiveLogs_result:
  "snd (archiveLogs E now st) = None \<or> snd (archiveLogs E now st) = Some (archive_name now)"
  by (simp add: archiveLogs_def Let_def split: sum.splits)

lemma archiveLogs_can_write:
  "can_write (disk (fst (archiveLogs E now st))) p = can_write (disk (ensureArchiveDir E st)) p"
  by (simp add: archiveLogs_def Let_def writeFileSync_eq console_error_def can_write_files_irrelevant)

lemma ensureArchiveDir_keeps_LOGS_FILE:
  assumes "can_write (disk st) (LOGS_FILE E)"
  shows "can_write (disk (ensureArchiveDir E st)) (LOGS_FILE E)"
  using assms LOGS_FILE_neq_ARCHIVE_DIR [of E]
    parent_exists_mono [of "disk st" "LOGS_FILE E" "[ARCHIVE_DIR E]"]
  by (simp add: ensureArchiveDir_disk can_write_def)

lemma appended_disk:
  shows "existsSync (disk (broadcast e m (saveLogs E (st\<lparr>logs := l\<rparr>)))) (ARCHIVE_DIR E) =
           existsSync (disk st) (ARCHIVE_DIR E)"
    and "dirs (disk (broadcast e m (saveLogs E (st\<lparr>logs := l\<rparr>)))) = dirs (disk st)"
    and "denied (disk (broadcast e m (saveLogs E (st\<lparr>logs := l\<rparr>)))) = denied (disk st)"
    and "logs (broadcast e m (saveLogs E (st\<lparr>logs := l\<rparr>))) = l"
    and "files (disk (broadcast e m (saveLogs E (st\<lparr>logs := l\<rparr>)))) =
           (if can_write (disk st) (LOGS_FILE E)
            then AList.update (LOGS_FILE E) (JArr (map stringify l)) (files (disk st))
            else files (disk st))"
  using LOGS_FILE_neq_ARCHIVE_DIR [of E]
  by (cases "can_write (disk st) (LOGS_FILE E)";
      simp add: broadcast_eq saveLogs_ok saveLogs_fail console_error_def existsSync_update)+

lemma appended_snapshot_writable:
  "can_write (disk (ensureArchiveDir E (broadcast e m (saveLogs E (st\<lparr>logs := l\<rparr>))))) p =
   can_write (disk (ensureArchiveDir E st)) p"
proof -
  let ?st3 = "broadcast e m (saveLogs E (st\<lparr>logs := l\<rparr>))"
  have "dirs (disk (ensureArchiveDir E ?st3)) = dirs (disk (ensureArchiveDir E st)) \<and>
        denied (disk (ensureArchiveDir E ?st3)) = denied (disk (ensureArchiveDir E st)) \<and>
        files (disk (ensureArchiveDir E ?st3)) = files (disk ?st3)"
    by (rule ensureArchiveDir_disk_cong) (rule appended_disk)+
  then show ?thesis by (intro can_write_cong) simp_all
qed

lemma shutdown_branch_eq:
  "shutdown_branch E now st =
     (broadcast ''Error notifying client of archive:''
        (envelope ''archive''
           (JObj [(''archived'', or_null (snd (archiveLogs E now st))), (''cleared'', JBool True)]))
        (saveLogs E ((fst (archiveLogs E now st))\<lparr>logs := []\<rparr>)),
      Json 200 (JObj [(''message'', JStr ''Log received and archived (shutdown detected)''),
                      (''archived'', json_of_archived (snd (archiveLogs E now st)))]))"
proof -
  have "stringify (or_null a) = or_null a" for a
    by (simp add: or_null_def split: option.splits)
  then show ?thesis
    by (simp add: shutdown_branch_def Let_def split_beta stringify_envelope)
qed

lemma shutdown_branch_logs: "logs (fst (shutdown_branch E now st)) = []"
  by (simp add: shutdown_branch_eq broadcast_eq saveLogs_logs)

lemma shutdown_branch_clients:
  "clients (fst (shutdown_branch E now st)) =
     map (deliver [envelope ''archive''
            (JObj [(''archived'', or_null (snd (archiveLogs E now st))), (''cleared'', JBool True)])])
       (clients st)"
  by (simp add: shutdown_branch_eq broadcast_eq saveLogs_clients archiveLogs_clients)

lemma shutdown_branch_keeps_LOGS_FILE:
  assumes "can_write (disk st) (LOGS_FILE E)"
  shows "can_write (disk (fst (shutdown_branch E now st))) (LOGS_FILE E)"
    and "persisted E (fst (shutdown_branch E now st)) = Some (JArr [])"
proof -
  let ?st5 = "(fst (archiveLogs E now st))\<lparr>logs := []\<rparr>"
  have cw: "can_write (disk ?st5) (LOGS_FILE E)"
    using ensureArchiveDir_keeps_LOGS_FILE [OF assms] by (simp add: archiveLogs_can_write)
  show "can_write (disk (fst (shutdown_branch E now st))) (LOGS_FILE E)"
    using cw by (simp add: shutdown_branch_eq broadcast_eq saveLogs_can_write)
  show "persisted E (fst (shutdown_branch E now st)) = Some (JArr [])"
    using saveLogs_persisted [OF cw] by (simp add: shutdown_branch_eq broadcast_eq persisted_def)
qed


section \<open>Rejection of submissions without a log\<close>

lemma falsy_cases:
  "\<not> truthy l \<longleftrightarrow>
     l = None \<or> l = Some (JStr []) \<or> l = Some JNull \<or> l = Some (JBool False) \<or>
     (\<exists>d. l = Some (JNum d) \<and> (is_zero d \<or> is_NaN d))"
  by (cases l rule: truthy.cases) auto

text \<open>
  Claim C2. A submission whose \<^verbatim>\<open>log\<close> field is falsy is answered with status 400 and
  the body \<^verbatim>\<open>{"error": "No log provided"}\<close>, and the whole server state, in particular
  the buffer and the persisted document, is the one before the request. The falsy values
  are the absent field, the empty string, \<^verbatim>\<open>null\<close>, \<^verbatim>\<open>false\<close> and the numbers zero
  (of either sign) and NaN, which no JSON text denotes.
\<close>

theorem post_log_rejects_falsy:
  assumes "\<not> truthy (get_prop body ''log'')"
  shows "post_log E now body st = (st, Json 400 (JObj [(''error'', JStr ''No log provided'')])) \<and>
         (get_prop body ''log'' = None \<or> get_prop body ''log'' = Some (JStr []) \<or>
          get_prop body ''log'' = Some JNull \<or> get_prop body ''log'' = Some (JBool False) \<or>
          (\<exists>d. get_prop body ''log'' = Some (JNum d) \<and> (is_zero d \<or> is_NaN d)))"
proof -
  have "get_prop body ''log'' = None \<or> get_prop body ''log'' = Some (JStr []) \<or>
        get_prop body ''log'' = Some JNull \<or> get_prop body ''log'' = Some (JBool False) \<or>
        (\<exists>d. get_prop body ''log'' = Some (JNum d) \<and> (is_zero d \<or> is_NaN d))"
    using assms by (simp only: falsy_cases)
  moreover have "post_log E now body st =
      (st, Json 400 (JObj [(''error'', JStr ''No log provided'')]))"
    by (rule post_log_rejected [OF assms])
  ultimately show ?thesis by blast
qed

theorem post_log_rejects_falsy_witness:
  "\<not> truthy (get_prop (JObj []) ''log'') \<and>
   \<not> truthy (get_prop (JObj [(''log'', JStr [])]) ''log'') \<and>
   \<not> truthy (get_prop (JObj [(''log'', JNull)]) ''log'') \<and>
   \<not> truthy (get_prop (JObj [(''log'', JBool False)]) ''log'') \<and>
   \<not> truthy (get_prop (JObj [(''log'', JNum 0)]) ''log'') \<and>
   \<not> truthy (get_prop (JObj [(''log'', JNum negative_zero)]) ''log'') \<and>
   post_log ex_env ex_now (JObj []) ex_server =
     (ex_server, Json 400 (JObj [(''error'', JStr ''No log provided'')])) \<and>
   post_log ex_env ex_now (JObj [(''log'', JStr [])]) ex_server =
     (ex_server, Json 400 (JObj [(''error'', JStr ''No log provided'')])) \<and>
   post_log ex_env ex_now (JObj [(''log'', JNull)]) ex_server =
     (ex_server, Json 400 (JObj [(''error'', JStr ''No log provided'')])) \<and>
   post_log ex_env ex_now (JObj [(''log'', JBool False)]) ex_server =
     (ex_server, Json 400 (JObj [(''error'', JStr ''No log provided'')])) \<and>
   post_log ex_env ex_now (JObj [(''log'', JNum 0)]) ex_server =
     (ex_server, Json 400 (JObj [(''error'', JStr ''No log provided'')])) \<and>
   post_log ex_env ex_now (JObj [(''log'', JNum negative_zero)]) ex_server =
     (ex_server, Json 400 (JObj [(''error'', JStr ''No log provided'')]))"
proof -
  have h1: "\<not> truthy (get_prop (JObj []) ''log'')" by simp
  have h2: "\<not> truthy (get_prop (JObj [(''log'', JStr [])]) ''log'')" by simp
  have h3: "\<not> truthy (get_prop (JObj [(''log'', JNull)]) ''log'')" by simp
  have h4: "\<not> truthy (get_prop (JObj [(''log'', JBool False)]) ''log'')" by simp
  have h5: "\<not> truthy (get_prop (JObj [(''log'', JNum 0)]) ''log'')" by code_simp
  have h6: "\<not> truthy (get_prop (JObj [(''log'', JNum negative_zero)]) ''log'')" by code_simp
  from post_log_rejects_falsy [OF h1, of ex_env ex_now ex_server]
       post_log_rejects_falsy [OF h2, of ex_env ex_now ex_server]
       post_log_rejects_falsy [OF h3, of ex_env ex_now ex_server]
       post_log_rejects_falsy [OF h4, of ex_env ex_now ex_server]
       post_log_rejects_falsy [OF h5, of ex_env ex_now ex_server]
       post_log_rejects_falsy [OF h6, of ex_env ex_now ex_server]
       h1 h2 h3 h4 h5 h6
  show ?thesis by blast
qed

section \<open>Submissions in sequence\<close>

lemma post_log_valid_logs:
  assumes "get_prop body ''log'' = Some v" "truthy (Some v)"
  shows "logs (fst (post_log E now body st)) = (if is_shutdown v then [] else logs st @ [v])"
proof (cases "is_shutdown v")
  case True
  then show ?thesis by (simp add: post_log_sentinel [OF assms] shutdown_branch_logs)
next
  case False
  then show ?thesis by (simp add: post_log_plain [OF assms] broadcast_eq saveLogs_logs)
qed

lemma post_log_valid_store:
  assumes "get_prop body ''log'' = Some v" "truthy (Some v)"
    and cw: "can_write (disk st) (LOGS_FILE E)"
  shows "can_write (disk (fst (post_log E now body st))) (LOGS_FILE E)"
    and "persisted E (fst (post_log E now body st)) =
           Some (JArr (map stringify (logs (fst (post_log E now body st)))))"
proof -
  let ?st3 = "broadcast ''Error sending new log to client:'' (envelope ''new'' (JArr [stringify v]))
                (saveLogs E (st\<lparr>logs := logs st @ [v]\<rparr>))"
  have cw3: "can_write (disk ?st3) (LOGS_FILE E)"
    using cw by (simp add: broadcast_eq saveLogs_can_write)
  have p3: "persisted E ?st3 = Some (JArr (map stringify (logs st @ [v])))"
    using cw saveLogs_persisted [of "st\<lparr>logs := logs st @ [v]\<rparr>" E]
    by (simp add: broadcast_eq persisted_def)
  show "can_write (disk (fst (post_log E now body st))) (LOGS_FILE E)"
  proof (cases "is_shutdown v")
    case True
    then show ?thesis
      using shutdown_branch_keeps_LOGS_FILE(1) [OF cw3]
      by (simp only: post_log_sentinel [OF assms(1,2) True])
  next
    case False
    show ?thesis using cw3 by (simp only: post_log_plain [OF assms(1,2) False] fst_conv)
  qed
  show "persisted E (fst (post_log E now body st)) =
           Some (JArr (map stringify (logs (fst (post_log E now body st)))))"
  proof (cases "is_shutdown v")
    case True
    have "logs (fst (post_log E now body st)) = []"
      using True by (simp add: post_log_valid_logs [OF assms(1,2)])
    moreover have "persisted E (fst (post_log E now body st)) = Some (JArr [])"
      using shutdown_branch_keeps_LOGS_FILE(2) [OF cw3]
      by (simp only: post_log_sentinel [OF assms(1,2) True])
    ultimately show ?thesis by simp
  next
    case False
    have "logs (fst (post_log E now body st)) = logs st @ [v]"
      using False by (simp add: post_log_valid_logs [OF assms(1,2)])
    moreover have "persisted E (fst (post_log E now body st)) =
        Some (JArr (map stringify (logs st @ [v])))"
      using p3 by (simp only: post_log_plain [OF assms(1,2) False] fst_conv)
    ultimately show ?thesis by simp
  qed
qed

lemma since_last_shutdown_Cons:
  "since_last_shutdown (v # vs) =
     (if list_ex is_shutdown vs then since_last_shutdown vs
      else if is_shutdown v then vs else v # vs)"
  by (auto simp: since_last_shutdown_def list_ex_iff takeWhile_append takeWhile_eq_all_conv)

lemma post_logs_logs:
  assumes "list_all2 valid_submission rs vs"
  shows "logs (post_logs E rs st) =
           (if list_ex is_shutdown vs then since_last_shutdown vs else logs st @ vs)"
  using assms
proof (induction rs vs arbitrary: st rule: list_all2_induct)
  case Nil
  then show ?case by simp
next
  case (Cons r rs v vs)
  obtain now body where r: "r = (now, body)" by (cases r)
  from Cons.hyps(1) r have h: "get_prop body ''log'' = Some v" "truthy (Some v)"
    by (simp_all add: valid_submission_def)
  show ?case
    by (simp add: r Cons.IH post_log_valid_logs [OF h] since_last_shutdown_Cons)
qed

lemma post_logs_store:
  assumes "list_all2 valid_submission rs vs"
    and "can_write (disk st) (LOGS_FILE E)"
    and "persisted E st = Some (JArr (map stringify (logs st)))"
  shows "persisted E (post_logs E rs st) = Some (JArr (map stringify (logs (post_logs E rs st))))"
  using assms
proof (induction rs vs arbitrary: st rule: list_all2_induct)
  case Nil
  then show ?case by simp
next
  case (Cons r rs v vs)
  obtain now body where r: "r = (now, body)" by (cases r)
  from Cons.hyps(1) r have h: "get_prop body ''log'' = Some v" "truthy (Some v)"
    by (simp_all add: valid_submission_def)
  show ?case
    using Cons.IH [OF post_log_valid_store [OF h Cons.prems(1)]] by (simp add: r)
qed

text \<open>
  Claim C1, as amended. Valid submissions with the payloads \<open>vs\<close> are handled in order
  from a state \<open>st\<close>. The buffer afterwards holds, in arrival order, the payloads that
  came after the last one matching the shutdown sentinel; when none matches, it is the
  buffer of \<open>st\<close> followed by \<open>vs\<close> (so \<open>vs\<close> itself from an empty buffer). When the
  file system accepts the write of \<^verbatim>\<open>logs.json\<close>, the persisted document is that buffer
  as \<^verbatim>\<open>JSON.stringify\<close> writes it (with no submission nothing is written, and the
  document is in step if it was before); it is the buffer itself when every record is
  written without loss.
\<close>

theorem post_logs_buffer_and_store:
  assumes "list_all2 valid_submission rs vs"
  shows "logs (post_logs E rs st) =
           (if list_ex is_shutdown vs then since_last_shutdown vs else logs st @ vs) \<and>
         (can_write (disk st) (LOGS_FILE E) \<and>
          (rs \<noteq> [] \<or> persisted E st = Some (stringify (JArr (logs st)))) \<longrightarrow>
            persisted E (post_logs E rs st) = Some (stringify (JArr (logs (post_logs E rs st))))) \<and>
         (list_all exact (logs (post_logs E rs st)) \<longrightarrow>
            stringify (JArr (logs (post_logs E rs st))) = JArr (logs (post_logs E rs st)))"
proof -
  have "persisted E (post_logs E rs st) = Some (JArr (map stringify (logs (post_logs E rs st))))"
    if cw: "can_write (disk st) (LOGS_FILE E)"
      and d: "rs \<noteq> [] \<or> persisted E st = Some (JArr (map stringify (logs st)))"
  proof (cases rs)
    case Nil
    with d assms show ?thesis by simp
  next
    case (Cons r rs')
    with assms obtain v vs' where vs: "vs = v # vs'" "valid_submission r v"
      "list_all2 valid_submission rs' vs'"
      by (auto simp: list_all2_Cons1)
    obtain now body where r: "r = (now, body)" by (cases r)
    from vs(2) r have h: "get_prop body ''log'' = Some v" "truthy (Some v)"
      by (simp_all add: valid_submission_def)
    from post_logs_store [OF vs(3) post_log_valid_store [OF h cw]]
    show ?thesis by (simp add: Cons r)
  qed
  then show ?thesis
    by (simp add: post_logs_logs [OF assms] exact_stringify_list)
qed

theorem post_logs_buffer_and_store_witness:
  "list_all2 valid_submission
     [(ex_now, JObj [(''log'', JStr ''boot'')]),
      (ex_now, JObj [(''log'', JStr ''Server SHUTDOWN requested'')]),
      (ex_now, JObj [(''log'', JNum seven)]),
      (ex_now, JObj [(''log'', JStr ''restart'')])]
     [JStr ''boot'', JStr ''Server SHUTDOWN requested'', JNum seven, JStr ''restart''] \<and>
   can_write (disk ex_server) (LOGS_FILE ex_env) \<and>
   logs (post_logs ex_env
     [(ex_now, JObj [(''log'', JStr ''boot'')]),
      (ex_now, JObj [(''log'', JStr ''Server SHUTDOWN requested'')]),
      (ex_now, JObj [(''log'', JNum seven)]),
      (ex_now, JObj [(''log'', JStr ''restart'')])] ex_server) = [JNum seven, JStr ''restart''] \<and>
   persisted ex_env (post_logs ex_env
     [(ex_now, JObj [(''log'', JStr ''boot'')]),
      (ex_now, JObj [(''log'', JStr ''Server SHUTDOWN requested'')]),
      (ex_now, JObj [(''log'', JNum seven)]),
      (ex_now, JObj [(''log'', JStr ''restart'')])] ex_server) =
     Some (JArr [JNum seven, JStr ''restart''])"
proof -
  let ?rs = "[(ex_now, JObj [(''log'', JStr ''boot'')]),
      (ex_now, JObj [(''log'', JStr ''Server SHUTDOWN requested'')]),
      (ex_now, JObj [(''log'', JNum seven)]),
      (ex_now, JObj [(''log'', JStr ''restart'')])]"
  let ?vs = "[JStr ''boot'', JStr ''Server SHUTDOWN requested'', JNum seven, JStr ''restart'']"
  have h: "list_all2 valid_submission ?rs ?vs" by code_simp
  have cw: "can_write (disk ex_server) (LOGS_FILE ex_env)" by code_simp
  have e1: "(if list_ex is_shutdown ?vs then since_last_shutdown ?vs else logs ex_server @ ?vs) =
            [JNum seven, JStr ''restart'']" by code_simp
  have e2: "list_all exact [JNum seven, JStr ''restart'']" by code_simp
  note t = post_logs_buffer_and_store [OF h, of ex_env ex_server]
  from t have l: "logs (post_logs ex_env ?rs ex_server) = [JNum seven, JStr ''restart'']"
    by (simp only: e1)
  from t cw have "persisted ex_env (post_logs ex_env ?rs ex_server) =
      Some (stringify (JArr (logs (post_logs ex_env ?rs ex_server))))" by simp
  moreover from t e2 have "stringify (JArr (logs (post_logs ex_env ?rs ex_server))) =
      JArr (logs (post_logs ex_env ?rs ex_server))" by (simp only: l simp_thms)
  ultimately have "persisted ex_env (post_logs ex_env ?rs ex_server) =
      Some (JArr [JNum seven, JStr ''restart''])" by (simp only: l)
  with h cw l show ?thesis by (simp only: simp_thms)
qed

text \<open>
  The claim as stated fails in four ways. A submission matching the sentinel clears the
  buffer: of three valid submissions the second of which contains \<^verbatim>\<open>SHUTDOWN\<close>, only
  the third is in the buffer afterwards. When \<^verbatim>\<open>logs.json\<close> cannot be written the
  submission is accepted and nothing is persisted. The number read from \<^verbatim>\<open>1e400\<close> is
  kept in the buffer as infinity and written as \<^verbatim>\<open>null\<close>. And with no submission at
  all nothing is written, so a store without \<^verbatim>\<open>logs.json\<close> stays without it.
\<close>

theorem post_logs_claim_counterexample:
  "truthy (Some (JStr ''boot'')) \<and> truthy (Some (JStr ''Server SHUTDOWN requested'')) \<and>
   truthy (Some (JStr ''restart'')) \<and> logs ex_server = [] \<and>
   logs (post_logs ex_env
     [(ex_now, JObj [(''log'', JStr ''boot'')]),
      (ex_now, JObj [(''log'', JStr ''Server SHUTDOWN requested'')]),
      (ex_now, JObj [(''log'', JStr ''restart'')])] ex_server) = [JStr ''restart''] \<and>
   [JStr ''restart''] \<noteq> [JStr ''boot'', JStr ''Server SHUTDOWN requested'', JStr ''restart''] \<and>
   logs ex_server_nosave = [] \<and>
   logs (post_logs ex_env [(ex_now, JObj [(''log'', JStr ''boot'')])] ex_server_nosave) =
     [JStr ''boot''] \<and>
   persisted ex_env (post_logs ex_env [(ex_now, JObj [(''log'', JStr ''boot'')])] ex_server_nosave) =
     None \<and>
   truthy (Some (JNum infinity)) \<and>
   logs (post_logs ex_env [(ex_now, JObj [(''log'', JNum infinity)])] ex_server) =
     [JNum infinity] \<and>
   persisted ex_env (post_logs ex_env [(ex_now, JObj [(''log'', JNum infinity)])] ex_server) =
     Some (JArr [JNull]) \<and>
   JArr [JNull] \<noteq> JArr [JNum infinity] \<and>
   logs (post_logs ex_env [] ex_server) = [] \<and>
   persisted ex_env (post_logs ex_env [] ex_server) = None"
  by code_simp


section \<open>Payloads that are not texts\<close>

text \<open>
  Claim C9, as amended. A truthy payload that is not a string (a number, an array, an
  object, \<^verbatim>\<open>true\<close>) is accepted with \<^verbatim>\<open>Log received\<close> and appended to the buffer. The
  buffer is saved best-effort: when the write of \<^verbatim>\<open>logs.json\<close> is accepted the
  persisted document is the new buffer as \<^verbatim>\<open>JSON.stringify\<close> writes it, and when it is
  refused the disk is untouched. Every open client is sent a \<^verbatim>\<open>new\<close> envelope with the
  payload as \<^verbatim>\<open>JSON.stringify\<close> writes it, which is the payload itself when it is
  written without loss. The sentinel does not fire whatever the payload contains: the
  answer is the plain one, the buffer is not cleared, no directory is made and no file
  but \<^verbatim>\<open>logs.json\<close> is written.
\<close>

theorem nonstring_payload_no_sentinel:
  assumes "get_prop body ''log'' = Some v" and "truthy (Some v)" and "\<forall>s. v \<noteq> JStr s"
  shows "snd (post_log E now body st) = Json 200 (JObj [(''message'', JStr ''Log received'')]) \<and>
         logs (fst (post_log E now body st)) = logs st @ [v] \<and>
         (can_write (disk st) (LOGS_FILE E) \<longrightarrow>
            persisted E (fst (post_log E now body st)) = Some (stringify (JArr (logs st @ [v]))) \<and>
            files (disk (fst (post_log E now body st))) =
              AList.update (LOGS_FILE E) (stringify (JArr (logs st @ [v]))) (files (disk st))) \<and>
         (\<not> can_write (disk st) (LOGS_FILE E) \<longrightarrow> disk (fst (post_log E now body st)) = disk st) \<and>
         dirs (disk (fst (post_log E now body st))) = dirs (disk st) \<and>
         clients (fst (post_log E now body st)) =
           map (deliver [envelope ''new'' (JArr [stringify v])]) (clients st) \<and>
         (exact v \<longrightarrow> stringify v = v)"
proof -
  have ns: "\<not> is_shutdown v" using assms(3) by (simp add: is_shutdown_nonstring)
  note pl = post_log_plain [OF assms(1) assms(2) ns]
  show ?thesis
    by (cases "can_write (disk st) (LOGS_FILE E)")
       (simp_all add: pl broadcast_eq saveLogs_ok saveLogs_fail console_error_def persisted_def
          update_conv' exact_stringify)
qed

theorem nonstring_payload_no_sentinel_witness:
  "get_prop (JObj [(''log'', JArr [JStr ''shutdown''])]) ''log'' = Some (JArr [JStr ''shutdown'']) \<and>
   truthy (Some (JArr [JStr ''shutdown''])) \<and>
   (\<forall>s. JArr [JStr ''shutdown''] \<noteq> JStr s) \<and>
   can_write (disk ex_server) (LOGS_FILE ex_env) \<and>
   post_log ex_env ex_now (JObj [(''log'', JArr [JStr ''shutdown''])]) ex_server =
     (\<lparr>logs = [JArr [JStr ''shutdown'']],
       disk = \<lparr>files = [(''/usr/src/app/logs.json'', JArr [JArr [JStr ''shutdown'']])],
                dirs = [''/usr/src/app''], denied = []\<rparr>,
       clients = [\<lparr>is_open = True, send_throws = False, isAlive = True,
                   inbox = [JObj [(''type'', JStr ''new''), (''data'', JArr [JArr [JStr ''shutdown'']])]]\<rparr>],
       errlog = []\<rparr>,
      Json 200 (JObj [(''message'', JStr ''Log received'')]))"
proof -
  have h1: "get_prop (JObj [(''log'', JArr [JStr ''shutdown''])]) ''log'' = Some (JArr [JStr ''shutdown''])"
    by simp
  have h2: "truthy (Some (JArr [JStr ''shutdown'']))" by simp
  have h3: "\<forall>s. JArr [JStr ''shutdown''] \<noteq> JStr s" by simp
  have cw: "can_write (disk ex_server) (LOGS_FILE ex_env)" by code_simp
  note t = nonstring_payload_no_sentinel [OF h1 h2 h3, of ex_env ex_now ex_server]
  have "fst (post_log ex_env ex_now (JObj [(''log'', JArr [JStr ''shutdown''])]) ex_server) =
        \<lparr>logs = [JArr [JStr ''shutdown'']],
       disk = \<lparr>files = [(''/usr/src/app/logs.json'', JArr [JArr [JStr ''shutdown'']])],
                dirs = [''/usr/src/app''], denied = []\<rparr>,
       clients = [\<lparr>is_open = True, send_throws = False, isAlive = True,
                   inbox = [JObj [(''type'', JStr ''new''), (''data'', JArr [JArr [JStr ''shutdown'']])]]\<rparr>],
       errlog = []\<rparr>"
    by code_simp
  with t h1 h2 h3 cw show ?thesis by (simp add: prod_eq_iff)
qed

text \<open>
  The claim as stated says the payload is persisted and broadcast. The number read from
  \<^verbatim>\<open>1e400\<close> is truthy and no string; it stays in the buffer as infinity, but the
  document written and the envelope sent hold \<^verbatim>\<open>null\<close> in its place. And on a disk
  that refuses \<^verbatim>\<open>logs.json\<close> the payload 7 is accepted and nothing is persisted.
\<close>

theorem nonstring_payload_counterexample:
  "truthy (Some (JNum infinity)) \<and>
   logs (fst (post_log ex_env ex_now (JObj [(''log'', JNum infinity)]) ex_server)) = [JNum infinity] \<and>
   persisted ex_env (fst (post_log ex_env ex_now (JObj [(''log'', JNum infinity)]) ex_server)) =
     Some (JArr [JNull]) \<and>
   inbox (hd (clients (fst (post_log ex_env ex_now (JObj [(''log'', JNum infinity)]) ex_server)))) =
     [JObj [(''type'', JStr ''new''), (''data'', JArr [JNull])]] \<and>
   JNull \<noteq> JNum infinity \<and>
   truthy (Some (JNum seven)) \<and>
   snd (post_log ex_env ex_now (JObj [(''log'', JNum seven)]) ex_server_nosave) =
     Json 200 (JObj [(''message'', JStr ''Log received'')]) \<and>
   logs (fst (post_log ex_env ex_now (JObj [(''log'', JNum seven)]) ex_server_nosave)) = [JNum seven] \<and>
   persisted ex_env (fst (post_log ex_env ex_now (JObj [(''log'', JNum seven)]) ex_server_nosave)) =
     None"
  by code_simp

section \<open>A save that fails\<close>

lemma json_of_archived_cases:
  "json_of_archived (snd (archiveLogs E now st)) = JNull \<or>
   json_of_archived (snd (archiveLogs E now st)) = JStr (archive_name now)"
  using archiveLogs_result [of E now st] by (auto simp: json_of_archived_def)

text \<open>
  Claim C8, as amended. For a valid submission that does not match the sentinel, when the
  write of \<^verbatim>\<open>logs.json\<close> fails the request is still answered with status 200 and
  \<^verbatim>\<open>Log received\<close>, the record stays appended to the buffer, the disk is as before, the
  clients still get their \<^verbatim>\<open>new\<close> envelope, and the failure shows only as a line of
  \<^verbatim>\<open>console.error\<close>. A valid submission that matches the sentinel is answered, whether
  or not a write fails, with status 200 and the archival message, carrying the snapshot's
  name or \<^verbatim>\<open>null\<close>, and the buffer is empty afterwards. The handler returns a response
  in every case: a write error is a value inside \<^verbatim>\<open>saveLogs\<close> and \<^verbatim>\<open>archiveLogs\<close> and
  goes no further.
\<close>

theorem save_failure_is_swallowed:
  assumes "get_prop body ''log'' = Some v" and "truthy (Some v)"
  shows "(\<not> is_shutdown v \<and> \<not> can_write (disk st) (LOGS_FILE E) \<longrightarrow>
            snd (post_log E now body st) = Json 200 (JObj [(''message'', JStr ''Log received'')]) \<and>
            logs (fst (post_log E now body st)) = logs st @ [v] \<and>
            disk (fst (post_log E now body st)) = disk st \<and>
            clients (fst (post_log E now body st)) =
              map (deliver [envelope ''new'' (JArr [stringify v])]) (clients st) \<and>
            errlog (fst (post_log E now body st)) =
              errlog st @ [''Error saving logs to disk:''] @
              send_errors ''Error sending new log to client:'' (clients st)) \<and>
         (is_shutdown v \<longrightarrow>
            (\<exists>a. (a = JNull \<or> a = JStr (archive_name now)) \<and>
                 snd (post_log E now body st) =
                   Json 200 (JObj [(''message'', JStr ''Log received and archived (shutdown detected)''),
                                   (''archived'', a)])) \<and>
            logs (fst (post_log E now body st)) = [])"
proof (intro conjI impI)
  assume a: "\<not> is_shutdown v \<and> \<not> can_write (disk st) (LOGS_FILE E)"
  then have ns: "\<not> is_shutdown v" and ncw: "\<not> can_write (disk st) (LOGS_FILE E)" by simp_all
  note pl = post_log_plain [OF assms ns]
  show "snd (post_log E now body st) = Json 200 (JObj [(''message'', JStr ''Log received'')])"
    by (simp add: pl)
  show "logs (fst (post_log E now body st)) = logs st @ [v]"
    by (simp add: pl broadcast_eq saveLogs_logs)
  show "disk (fst (post_log E now body st)) = disk st"
    using ncw by (simp add: pl broadcast_eq saveLogs_fail console_error_def)
  show "clients (fst (post_log E now body st)) =
          map (deliver [envelope ''new'' (JArr [stringify v])]) (clients st)"
    by (simp add: pl broadcast_eq saveLogs_clients)
  show "errlog (fst (post_log E now body st)) =
          errlog st @ [''Error saving logs to disk:''] @
          send_errors ''Error sending new log to client:'' (clients st)"
    using ncw by (simp add: pl broadcast_eq saveLogs_fail console_error_def)
next
  assume sd: "is_shutdown v"
  let ?st3 = "broadcast ''Error sending new log to client:'' (envelope ''new'' (JArr [stringify v]))
                (saveLogs E (st\<lparr>logs := logs st @ [v]\<rparr>))"
  note pl = post_log_sentinel [OF assms sd]
  have r: "snd (post_log E now body st) =
      Json 200 (JObj [(''message'', JStr ''Log received and archived (shutdown detected)''),
                      (''archived'', json_of_archived (snd (archiveLogs E now ?st3)))])"
    by (simp only: pl shutdown_branch_eq snd_conv)
  with json_of_archived_cases [of E now ?st3]
  show "\<exists>a. (a = JNull \<or> a = JStr (archive_name now)) \<and>
          snd (post_log E now body st) =
            Json 200 (JObj [(''message'', JStr ''Log received and archived (shutdown detected)''),
                            (''archived'', a)])"
    by blast
  show "logs (fst (post_log E now body st)) = []"
    by (simp only: pl shutdown_branch_logs)
qed

theorem save_failure_is_swallowed_witness:
  "get_prop (JObj [(''log'', JStr ''boot'')]) ''log'' = Some (JStr ''boot'') \<and>
   truthy (Some (JStr ''boot'')) \<and> \<not> is_shutdown (JStr ''boot'') \<and>
   \<not> can_write (disk ex_server_nosave) (LOGS_FILE ex_env) \<and>
   post_log ex_env ex_now (JObj [(''log'', JStr ''boot'')]) ex_server_nosave =
     (\<lparr>logs = [JStr ''boot''], disk = ex_disk_nosave,
       clients = [\<lparr>is_open = True, send_throws = False, isAlive = True,
                   inbox = [JObj [(''type'', JStr ''new''), (''data'', JArr [JStr ''boot''])]]\<rparr>],
       errlog = [''Error saving logs to disk:'']\<rparr>,
      Json 200 (JObj [(''message'', JStr ''Log received'')])) \<and>
   get_prop (JObj [(''log'', JStr ''shutdown'')]) ''log'' = Some (JStr ''shutdown'') \<and>
   truthy (Some (JStr ''shutdown'')) \<and> is_shutdown (JStr ''shutdown'') \<and>
   snd (post_log ex_env ex_now (JObj [(''log'', JStr ''shutdown'')]) ex_server_nosave) =
     Json 200 (JObj [(''message'', JStr ''Log received and archived (shutdown detected)''),
                     (''archived'', JStr ''logs-2026-11-03T09-05-07-042Z.json'')]) \<and>
   logs (fst (post_log ex_env ex_now (JObj [(''log'', JStr ''shutdown'')]) ex_server_nosave)) = []"
proof -
  have h1: "get_prop (JObj [(''log'', JStr ''boot'')]) ''log'' = Some (JStr ''boot'')" by simp
  have h2: "truthy (Some (JStr ''boot''))" by simp
  have h3: "\<not> is_shutdown (JStr ''boot'')" by code_simp
  have h4: "\<not> can_write (disk ex_server_nosave) (LOGS_FILE ex_env)" by code_simp
  note t = save_failure_is_swallowed [OF h1 h2, where st = ex_server_nosave and E = ex_env and now = ex_now]
  have e: "clients ex_server_nosave = [ex_client]" "logs ex_server_nosave = []"
     "errlog ex_server_nosave = []" "disk ex_server_nosave = ex_disk_nosave"
    by (simp_all add: ex_server_nosave_def)
  have r: "fst (post_log ex_env ex_now (JObj [(''log'', JStr ''boot'')]) ex_server_nosave) =
      \<lparr>logs = [JStr ''boot''], disk = ex_disk_nosave,
       clients = [\<lparr>is_open = True, send_throws = False, isAlive = True,
                   inbox = [JObj [(''type'', JStr ''new''), (''data'', JArr [JStr ''boot''])]]\<rparr>],
       errlog = [''Error saving logs to disk:'']\<rparr>"
    using t h3 h4 e by (simp add: deliver_def send_errors_def ex_client_def envelope_def)
  have r2: "snd (post_log ex_env ex_now (JObj [(''log'', JStr ''boot'')]) ex_server_nosave) =
      Json 200 (JObj [(''message'', JStr ''Log received'')])"
    using t h3 h4 by simp
  have g1: "get_prop (JObj [(''log'', JStr ''shutdown'')]) ''log'' = Some (JStr ''shutdown'')" by simp
  have g2: "truthy (Some (JStr ''shutdown''))" by simp
  have g3: "is_shutdown (JStr ''shutdown'')" by code_simp
  note u = save_failure_is_swallowed [OF g1 g2, where st = ex_server_nosave and E = ex_env and now = ex_now]
  have u1: "logs (fst (post_log ex_env ex_now (JObj [(''log'', JStr ''shutdown'')]) ex_server_nosave)) = []"
    using u g3 by blast
  have u2: "snd (post_log ex_env ex_now (JObj [(''log'', JStr ''shutdown'')]) ex_server_nosave) =
     Json 200 (JObj [(''message'', JStr ''Log received and archived (shutdown detected)''),
                     (''archived'', JStr ''logs-2026-11-03T09-05-07-042Z.json'')])"
    by code_simp
  from h1 h2 h3 h4 r r2 g1 g2 g3 u1 u2 show ?thesis by (simp only: prod_eq_iff fst_conv snd_conv simp_thms)
qed

text \<open>
  The claim as stated, for every valid submission, fails for one that matches the
  sentinel: with a failing save the answer is the archival one, not \<^verbatim>\<open>Log received\<close>,
  and the record is no longer in the buffer, which the archival has cleared.
\<close>

theorem save_failure_sentinel_counterexample:
  "truthy (Some (JStr ''shutdown'')) \<and>
   \<not> can_write (disk ex_server_nosave) (LOGS_FILE ex_env) \<and>
   snd (post_log ex_env ex_now (JObj [(''log'', JStr ''shutdown'')]) ex_server_nosave) =
     Json 200 (JObj [(''message'', JStr ''Log received and archived (shutdown detected)''),
                     (''archived'', JStr ''logs-2026-11-03T09-05-07-042Z.json'')]) \<and>
   snd (post_log ex_env ex_now (JObj [(''log'', JStr ''shutdown'')]) ex_server_nosave) \<noteq>
     Json 200 (JObj [(''message'', JStr ''Log received'')]) \<and>
   logs (fst (post_log ex_env ex_now (JObj [(''log'', JStr ''shutdown'')]) ex_server_nosave)) = [] \<and>
   logs ex_server_nosave @ [JStr ''shutdown''] \<noteq> []"
  by code_simp


section \<open>Archiving an empty buffer\<close>

text \<open>
  Claim C4. When the buffer is empty as \<^verbatim>\<open>archiveLogs\<close> runs, it returns \<^verbatim>\<open>null\<close>
  and writes no file (the files on disk are those before; only the archive directory may
  have been made). The sentinel branch run on such a state answers with
  \<^verbatim>\<open>archived: null\<close>, tells the clients \<^verbatim>\<open>archived: null, cleared: true\<close>, and the
  only file it can have written is \<^verbatim>\<open>logs.json\<close>.
\<close>

theorem archive_of_empty_buffer:
  assumes "logs st = []"
  shows "snd (archiveLogs E now st) = None \<and>
         files (disk (fst (archiveLogs E now st))) = files (disk st) \<and>
         snd (shutdown_branch E now st) =
           Json 200 (JObj [(''message'', JStr ''Log received and archived (shutdown detected)''),
                           (''archived'', JNull)]) \<and>
         clients (fst (shutdown_branch E now st)) =
           map (deliver [envelope ''archive''
                  (JObj [(''archived'', JNull), (''cleared'', JBool True)])]) (clients st) \<and>
         (files (disk (fst (shutdown_branch E now st))) = files (disk st) \<or>
          files (disk (fst (shutdown_branch E now st))) =
            AList.update (LOGS_FILE E) (JArr []) (files (disk st)))"
proof -
  let ?st2 = "(ensureArchiveDir E st)\<lparr>logs := []\<rparr>"
  have sb: "shutdown_branch E now st =
     (broadcast ''Error notifying client of archive:''
        (envelope ''archive'' (JObj [(''archived'', JNull), (''cleared'', JBool True)]))
        (saveLogs E ?st2),
      Json 200 (JObj [(''message'', JStr ''Log received and archived (shutdown detected)''),
                      (''archived'', JNull)]))"
    by (simp add: shutdown_branch_eq archiveLogs_empty [OF assms] or_null_def json_of_archived_def)
  have f: "files (disk (saveLogs E ?st2)) = files (disk st) \<or>
           files (disk (saveLogs E ?st2)) = AList.update (LOGS_FILE E) (JArr []) (files (disk st))"
    by (cases "can_write (disk ?st2) (LOGS_FILE E)")
       (simp_all add: saveLogs_ok saveLogs_fail console_error_def ensureArchiveDir_files)
  show ?thesis
    using f
    by (simp add: sb archiveLogs_empty [OF assms] ensureArchiveDir_files broadcast_eq
          saveLogs_clients ensureArchiveDir_clients)
qed

theorem archive_of_empty_buffer_witness:
  "logs ex_server = [] \<and>
   archiveLogs ex_env ex_now ex_server =
     (ex_server\<lparr>disk := ex_disk\<lparr>dirs := [''/usr/src/app'', ''/usr/src/app/archives'']\<rparr>\<rparr>, None) \<and>
   snd (shutdown_branch ex_env ex_now ex_server) =
     Json 200 (JObj [(''message'', JStr ''Log received and archived (shutdown detected)''),
                     (''archived'', JNull)])"
proof -
  have h: "logs ex_server = []" by (simp add: ex_server_def)
  note t = archive_of_empty_buffer [OF h, of ex_env ex_now]
  have a: "fst (archiveLogs ex_env ex_now ex_server) =
           ex_server\<lparr>disk := ex_disk\<lparr>dirs := [''/usr/src/app'', ''/usr/src/app/archives'']\<rparr>\<rparr>"
    by code_simp
  with t h show ?thesis by (simp add: prod_eq_iff)
qed

section \<open>What the clients are sent\<close>

text \<open>
  Claim C5, as amended. Every message published to the clients is an envelope
  \<^verbatim>\<open>{type, data}\<close> whose type is one of \<^verbatim>\<open>init\<close>, \<^verbatim>\<open>new\<close> and \<^verbatim>\<open>archive\<close>. A
  connecting client is sent at most one message, \<^verbatim>\<open>init\<close> with the whole buffer. A
  request to \<^verbatim>\<open>POST /log\<close> sends every open client whose \<^verbatim>\<open>send\<close> works the same
  messages: none when the submission is rejected; otherwise \<^verbatim>\<open>new\<close> with exactly the
  record just added, in an array of one; and, when the sentinel fires, after it
  \<^verbatim>\<open>archive\<close> with \<^verbatim>\<open>{archived, cleared: true}\<close>, where \<^verbatim>\<open>archived\<close> is the
  snapshot's name or \<^verbatim>\<open>null\<close>. Buffer and record travel as \<^verbatim>\<open>JSON.stringify\<close> writes
  them, which is as they are when they are written without loss.
\<close>

theorem published_envelopes:
  "(\<exists>out. out \<in> {[], [envelope ''init'' (stringify (JArr (logs st)))]} \<and>
          clients (on_connection ws st) = clients st @ [ws\<lparr>isAlive := True, inbox := inbox ws @ out\<rparr>]) \<and>
   (list_all exact (logs st) \<longrightarrow> stringify (JArr (logs st)) = JArr (logs st)) \<and>
   (\<exists>out. clients (fst (post_log E now body st)) = map (deliver out) (clients st) \<and>
      (case get_prop body ''log'' of
         None \<Rightarrow> out = []
       | Some v \<Rightarrow>
           if \<not> truthy (Some v) then out = []
           else if \<not> is_shutdown v then out = [envelope ''new'' (JArr [stringify v])]
           else \<exists>a. (a = JNull \<or> a = JStr (archive_name now)) \<and>
                  out = [envelope ''new'' (JArr [stringify v]),
                         envelope ''archive'' (JObj [(''archived'', a), (''cleared'', JBool True)])])) \<and>
   (\<forall>v. exact v \<longrightarrow> stringify v = v)"
proof (intro conjI)
  show "\<exists>out. out \<in> {[], [envelope ''init'' (stringify (JArr (logs st)))]} \<and>
          clients (on_connection ws st) = clients st @ [ws\<lparr>isAlive := True, inbox := inbox ws @ out\<rparr>]"
  proof (cases "send_throws ws")
    case True
    then have "clients (on_connection ws st) = clients st @ [ws\<lparr>isAlive := True, inbox := inbox ws @ []\<rparr>]"
      by (simp add: on_connection_def ws_send_def console_error_def)
    then show ?thesis by blast
  next
    case False
    then have "clients (on_connection ws st) =
        clients st @ [ws\<lparr>isAlive := True,
                         inbox := inbox ws @ [envelope ''init'' (stringify (JArr (logs st)))]\<rparr>]"
      by (simp add: on_connection_def ws_send_def stringify_envelope)
    then show ?thesis by blast
  qed
next
  show "list_all exact (logs st) \<longrightarrow> stringify (JArr (logs st)) = JArr (logs st)"
    by (simp add: exact_stringify_list)
next
  show "\<forall>v. exact v \<longrightarrow> stringify v = v" by (simp add: exact_stringify)
next
  have d0: "map (deliver []) (clients st) = clients st"
    by (simp add: deliver_def map_idI)
  show "\<exists>out. clients (fst (post_log E now body st)) = map (deliver out) (clients st) \<and>
      (case get_prop body ''log'' of
         None \<Rightarrow> out = []
       | Some v \<Rightarrow>
           if \<not> truthy (Some v) then out = []
           else if \<not> is_shutdown v then out = [envelope ''new'' (JArr [stringify v])]
           else \<exists>a. (a = JNull \<or> a = JStr (archive_name now)) \<and>
                  out = [envelope ''new'' (JArr [stringify v]),
                         envelope ''archive'' (JObj [(''archived'', a), (''cleared'', JBool True)])])"
  proof (cases "get_prop body ''log''")
    case None
    then show ?thesis by (simp add: post_log_def d0)
  next
    case (Some v)
    show ?thesis
    proof (cases "truthy (Some v)")
      case False
      with Some show ?thesis by (simp add: post_log_def d0)
    next
      case True
      show ?thesis
      proof (cases "is_shutdown v")
        case False
        with Some True show ?thesis
          by (simp add: post_log_plain broadcast_eq saveLogs_clients)
      next
        case sd: True
        let ?st3 = "broadcast ''Error sending new log to client:''
                      (envelope ''new'' (JArr [stringify v]))
                      (saveLogs E (st\<lparr>logs := logs st @ [v]\<rparr>))"
        let ?a = "or_null (snd (archiveLogs E now ?st3))"
        have a: "?a = JNull \<or> ?a = JStr (archive_name now)"
          using archiveLogs_result [of E now ?st3]
          by (auto simp: or_null_def archive_name_nonempty)
        have "clients (fst (post_log E now body st)) =
              map (deliver [envelope ''new'' (JArr [stringify v]),
                     envelope ''archive'' (JObj [(''archived'', ?a), (''cleared'', JBool True)])])
                (clients st)"
          by (simp add: post_log_sentinel [OF Some True sd] shutdown_branch_clients
                broadcast_eq saveLogs_clients deliver_deliver)
        with a Some True sd show ?thesis by auto
      qed
    qed
  qed
qed

theorem published_envelopes_witness:
  "clients (on_connection ex_client ex_server) =
     [ex_client, ex_client\<lparr>inbox := [JObj [(''type'', JStr ''init''), (''data'', JArr [])]]\<rparr>] \<and>
   clients (fst (post_log ex_env ex_now (JObj [(''log'', JStr ''shutdown'')]) ex_server)) =
     [ex_client\<lparr>inbox :=
        [JObj [(''type'', JStr ''new''), (''data'', JArr [JStr ''shutdown''])],
         JObj [(''type'', JStr ''archive''),
               (''data'', JObj [(''archived'', JStr ''logs-2026-11-03T09-05-07-042Z.json''),
                                (''cleared'', JBool True)])]]\<rparr>] \<and>
   exact (JStr ''shutdown'') \<and> stringify (JStr ''shutdown'') = JStr ''shutdown''"
proof -
  note t = published_envelopes [of ex_server ex_client ex_env ex_now "JObj [(''log'', JStr ''shutdown'')]"]
  have a: "clients (on_connection ex_client ex_server) =
     [ex_client, ex_client\<lparr>inbox := [JObj [(''type'', JStr ''init''), (''data'', JArr [])]]\<rparr>]"
    by code_simp
  have b: "clients (fst (post_log ex_env ex_now (JObj [(''log'', JStr ''shutdown'')]) ex_server)) =
     [ex_client\<lparr>inbox :=
        [JObj [(''type'', JStr ''new''), (''data'', JArr [JStr ''shutdown''])],
         JObj [(''type'', JStr ''archive''),
               (''data'', JObj [(''archived'', JStr ''logs-2026-11-03T09-05-07-042Z.json''),
                                (''cleared'', JBool True)])]]\<rparr>]"
    by code_simp
  have c: "exact (JStr ''shutdown'')" by simp
  from t c have d: "stringify (JStr ''shutdown'') = JStr ''shutdown''" by blast
  from a b c d show ?thesis by (simp only: simp_thms)
qed

text \<open>
  The claim as stated names the type of the ingestion envelope \<^verbatim>\<open>append\<close>; the server
  sends \<^verbatim>\<open>new\<close>, which is not among \<^verbatim>\<open>init\<close>, \<^verbatim>\<open>append\<close> and \<^verbatim>\<open>archive\<close>. And
  the record is not always carried as it is: the number read from \<^verbatim>\<open>1e400\<close> is added to
  the buffer as infinity and sent as \<^verbatim>\<open>null\<close>.
\<close>

theorem append_envelope_counterexample:
  "inbox (hd (clients (fst (post_log ex_env ex_now (JObj [(''log'', JStr ''hello'')]) ex_server)))) =
     [JObj [(''type'', JStr ''new''), (''data'', JArr [JStr ''hello''])]] \<and>
   get_prop (JObj [(''type'', JStr ''new''), (''data'', JArr [JStr ''hello''])]) ''type'' =
     Some (JStr ''new'') \<and>
   ''new'' \<notin> {''init'', ''append'', ''archive''} \<and>
   logs (fst (post_log ex_env ex_now (JObj [(''log'', JNum infinity)]) ex_server)) = [JNum infinity] \<and>
   inbox (hd (clients (fst (post_log ex_env ex_now (JObj [(''log'', JNum infinity)]) ex_server)))) =
     [JObj [(''type'', JStr ''new''), (''data'', JArr [JNull])]] \<and>
   JNull \<noteq> JNum infinity"
  by code_simp


section \<open>A snapshot that cannot be written\<close>

lemma path_join_prefix:
  "\<exists>pre. \<forall>s. clean_seg s \<longrightarrow> path_join [r, s] = pre @ s"
proof -
  define xs where "xs = (if r = [] then [] else split_on CHR ''/'' r)"
  define ab where "ab = (r \<noteq> [] \<and> isAbsolute r)"
  define acc where "acc = norm_segs (\<not> ab) [] xs"
  define pre where "pre = (if ab then ''/'' else []) @
                          (if acc = [] then [] else join_with CHR ''/'' acc @ ''/'')"
  have "path_join [r, s] = pre @ s" if cs: "clean_seg s" for s
  proof -
    have s: "s \<noteq> []" "CHR ''/'' \<notin> set s" using cs by (simp_all add: clean_seg_def)
    then have ls: "last s \<noteq> CHR ''/''" using last_in_set [of s] by metis
    have hs: "\<not> isAbsolute s" using s by (cases s) (auto simp: isAbsolute_def)
    define p where "p = (if r = [] then s else r @ CHR ''/'' # s)"
    have pj: "path_join [r, s] = normalize p"
      using s(1) by (simp add: path_join_def p_def)
    have pne: "p \<noteq> []" "last p \<noteq> CHR ''/''" using s(1) ls by (simp_all add: p_def)
    have pa: "isAbsolute p = ab"
      using hs by (cases r) (simp_all add: p_def ab_def isAbsolute_def)
    have sp: "split_on CHR ''/'' p = xs @ [s]"
      using s(2) by (simp add: p_def xs_def split_on_append_sep split_on_no_sep)
    have q: "normalizeString p (\<not> ab) = join_with CHR ''/'' (acc @ [s])"
      by (simp add: normalizeString_def sp norm_segs_clean_last [OF cs] acc_def)
    have j: "join_with CHR ''/'' (acc @ [s]) =
               (if acc = [] then [] else join_with CHR ''/'' acc @ ''/'') @ s"
      by (simp add: join_with_snoc)
    have "normalize p = pre @ s"
      using pne s(1) by (simp add: normalize_def Let_def pa q j pre_def)
    with pj show ?thesis by simp
  qed
  then show ?thesis by blast
qed

lemma LOGS_FILE_not_in_ARCHIVE_DIR: "child_name (ARCHIVE_DIR E) (LOGS_FILE E) = None"
proof -
  obtain pre where pre: "\<forall>s. clean_seg s \<longrightarrow> path_join [dirname E, s] = pre @ s"
    using path_join_prefix by blast
  have l: "LOGS_FILE E = pre @ ''logs.json''"
    using pre clean_logs_json by (simp add: LOGS_FILE_def)
  have a: "ARCHIVE_DIR E = pre @ ''archives''"
    using pre clean_archives by (simp add: ARCHIVE_DIR_def)
  have "ARCHIVE_DIR E \<noteq> ''/''"
  proof
    assume "ARCHIVE_DIR E = ''/''"
    then have "last (pre @ ''archives'') = CHR ''/''" using a by simp
    then show False by simp
  qed
  then show ?thesis by (simp add: child_name_def l a)
qed

lemma ensureArchiveDir_LOGS_FILE:
  "can_write (disk (ensureArchiveDir E st)) (LOGS_FILE E) = can_write (disk st) (LOGS_FILE E)"
  using LOGS_FILE_neq_ARCHIVE_DIR [of E] LOGS_FILE_not_in_ARCHIVE_DIR [of E]
  by (simp add: ensureArchiveDir_disk can_write_def parent_exists_def)

text \<open>
  Claim C10, as amended. A text containing \<^verbatim>\<open>shutdown\<close> (in any letter case) is
  submitted and the snapshot write fails. The buffer, which holds at least the record just
  added, is cleared all the same; the clients get the \<^verbatim>\<open>archive\<close> envelope with
  \<^verbatim>\<open>archived: null\<close> and \<^verbatim>\<open>cleared: true\<close>; the answer reports the archival with
  \<^verbatim>\<open>archived: null\<close>; the failure shows only in \<^verbatim>\<open>console.error\<close>. When
  \<^verbatim>\<open>logs.json\<close> can be written the empty buffer is persisted, and as no other file has
  changed the records are in no snapshot: they are dropped. When \<^verbatim>\<open>logs.json\<close> cannot
  be written either, no file has changed at all and it keeps what it held.
\<close>

theorem failed_snapshot_drops_records:
  assumes body: "get_prop body ''log'' = Some (JStr s)"
    and sd: "contains_ci s ''shutdown''"
    and nw: "\<not> snapshot_writable E now st"
  shows "snd (post_log E now body st) =
           Json 200 (JObj [(''message'', JStr ''Log received and archived (shutdown detected)''),
                           (''archived'', JNull)]) \<and>
         logs (fst (post_log E now body st)) = [] \<and>
         clients (fst (post_log E now body st)) =
           map (deliver [envelope ''new'' (JArr [JStr s]),
                         envelope ''archive'' (JObj [(''archived'', JNull), (''cleared'', JBool True)])])
             (clients st) \<and>
         (can_write (disk st) (LOGS_FILE E) \<longrightarrow>
            persisted E (fst (post_log E now body st)) = Some (JArr [])) \<and>
         (\<not> can_write (disk st) (LOGS_FILE E) \<longrightarrow>
            files (disk (fst (post_log E now body st))) = files (disk st)) \<and>
         (\<forall>p. p \<noteq> LOGS_FILE E \<longrightarrow>
            map_of (files (disk (fst (post_log E now body st)))) p = map_of (files (disk st)) p) \<and>
         ''Error archiving logs:'' \<in> set (errlog (fst (post_log E now body st)))"
proof -
  let ?v = "JStr s"
  let ?st3 = "broadcast ''Error sending new log to client:'' (envelope ''new'' (JArr [stringify ?v]))
                (saveLogs E (st\<lparr>logs := logs st @ [?v]\<rparr>))"
  let ?st1 = "ensureArchiveDir E ?st3"
  let ?st4 = "console_error ''Error archiving logs:'' ?st1"
  let ?st5 = "?st4\<lparr>logs := []\<rparr>"
  have tr: "truthy (Some ?v)" using contains_ci_nonempty [OF sd] by simp
  have isd: "is_shutdown ?v" using sd by (simp only: is_shutdown_iff)
  have pl: "post_log E now body st = shutdown_branch E now ?st3"
    by (rule post_log_sentinel [OF body tr isd])
  have l3: "logs ?st3 \<noteq> []" by (simp add: appended_disk(4))
  have ncw: "\<not> can_write (disk ?st1) (snapshot_path E now)"
    using nw by (simp add: appended_snapshot_writable snapshot_writable_def)
  have al: "archiveLogs E now ?st3 = (?st4, None)"
    by (rule archiveLogs_fail [OF l3 ncw])
  have sb: "shutdown_branch E now ?st3 =
      (broadcast ''Error notifying client of archive:''
         (envelope ''archive'' (JObj [(''archived'', JNull), (''cleared'', JBool True)]))
         (saveLogs E ?st5),
       Json 200 (JObj [(''message'', JStr ''Log received and archived (shutdown detected)''),
                       (''archived'', JNull)]))"
    unfolding shutdown_branch_eq al by (simp add: or_null_def json_of_archived_def)
  have res: "post_log E now body st =
      (broadcast ''Error notifying client of archive:''
         (envelope ''archive'' (JObj [(''archived'', JNull), (''cleared'', JBool True)]))
         (saveLogs E ?st5),
       Json 200 (JObj [(''message'', JStr ''Log received and archived (shutdown detected)''),
                       (''archived'', JNull)]))"
    using pl sb by (simp only:)
  have files1: "files (disk ?st5) = files (disk ?st3)"
    by (simp add: console_error_def ensureArchiveDir_files)
  have cw5: "can_write (disk ?st5) (LOGS_FILE E) = can_write (disk st) (LOGS_FILE E)"
  proof -
    have "can_write (disk ?st5) (LOGS_FILE E) = can_write (disk ?st1) (LOGS_FILE E)"
      by (simp add: console_error_def)
    also have "\<dots> = can_write (disk (ensureArchiveDir E st)) (LOGS_FILE E)"
      by (rule appended_snapshot_writable)
    also have "\<dots> = can_write (disk st) (LOGS_FILE E)" by (rule ensureArchiveDir_LOGS_FILE)
    finally show ?thesis .
  qed
  have c1: "snd (post_log E now body st) =
           Json 200 (JObj [(''message'', JStr ''Log received and archived (shutdown detected)''),
                           (''archived'', JNull)])"
    by (simp add: res)
  have c2: "logs (fst (post_log E now body st)) = []"
    by (simp add: res broadcast_eq saveLogs_logs)
  have c3: "clients (fst (post_log E now body st)) =
           map (deliver [envelope ''new'' (JArr [JStr s]),
                         envelope ''archive'' (JObj [(''archived'', JNull), (''cleared'', JBool True)])])
             (clients st)"
    by (simp add: res broadcast_eq saveLogs_clients console_error_def ensureArchiveDir_clients
          deliver_deliver)
  have c4: "persisted E (fst (post_log E now body st)) = Some (JArr [])"
    if cw: "can_write (disk st) (LOGS_FILE E)"
  proof -
    from cw cw5 have "can_write (disk ?st5) (LOGS_FILE E)" by simp
    then have "persisted E (saveLogs E ?st5) = Some (JArr (map stringify (logs ?st5)))"
      by (rule saveLogs_persisted)
    then show ?thesis by (simp add: res broadcast_eq persisted_def)
  qed
  have c4': "files (disk (fst (post_log E now body st))) = files (disk st)"
    if ncw: "\<not> can_write (disk st) (LOGS_FILE E)"
  proof -
    from ncw cw5 have "\<not> can_write (disk ?st5) (LOGS_FILE E)" by simp
    then have "disk (saveLogs E ?st5) = disk ?st5" by (rule saveLogs_refused_disk)
    moreover have "files (disk ?st3) = files (disk st)" using ncw by (simp add: appended_disk(5))
    ultimately show ?thesis using files1 by (simp add: res broadcast_eq)
  qed
  have c5: "map_of (files (disk (fst (post_log E now body st)))) p = map_of (files (disk st)) p"
    if p: "p \<noteq> LOGS_FILE E" for p
  proof -
    have a: "map_of (files (disk (saveLogs E ?st5))) p = map_of (files (disk ?st5)) p"
      by (rule saveLogs_other_files [OF p])
    have b: "map_of (files (disk ?st3)) p = map_of (files (disk st)) p"
      using p by (simp add: appended_disk(5) update_conv')
    show ?thesis using a b files1 by (simp add: res broadcast_eq)
  qed
  have c6: "''Error archiving logs:'' \<in> set (errlog (fst (post_log E now body st)))"
    by (cases "can_write (disk ?st5) (LOGS_FILE E)")
       (simp_all add: res broadcast_eq saveLogs_ok saveLogs_fail console_error_def)
  from c1 c2 c3 c4 c4' c5 c6 show ?thesis by blast
qed

theorem failed_snapshot_drops_records_witness:
  "get_prop (JObj [(''log'', JStr ''Server Shutdown'')]) ''log'' = Some (JStr ''Server Shutdown'') \<and>
   contains_ci ''Server Shutdown'' ''shutdown'' \<and>
   \<not> snapshot_writable ex_env ex_now (ex_server_noarchive\<lparr>logs := [JStr ''boot'']\<rparr>) \<and>
   post_log ex_env ex_now (JObj [(''log'', JStr ''Server Shutdown'')])
       (ex_server_noarchive\<lparr>logs := [JStr ''boot'']\<rparr>) =
     (\<lparr>logs = [],
       disk = \<lparr>files = [(''/usr/src/app/logs.json'', JArr [])], dirs = [''/usr/src/app''],
                denied = [''/usr/src/app/archives'']\<rparr>,
       clients = [\<lparr>is_open = True, send_throws = False, isAlive = True,
                   inbox = [JObj [(''type'', JStr ''new''), (''data'', JArr [JStr ''Server Shutdown''])],
                            JObj [(''type'', JStr ''archive''),
                                  (''data'', JObj [(''archived'', JNull), (''cleared'', JBool True)])]]\<rparr>],
       errlog = [''Error ensuring archive directory:'', ''Error archiving logs:'']\<rparr>,
      Json 200 (JObj [(''message'', JStr ''Log received and archived (shutdown detected)''),
                      (''archived'', JNull)]))"
proof -
  have h2: "get_prop (JObj [(''log'', JStr ''Server Shutdown'')]) ''log'' = Some (JStr ''Server Shutdown'')"
    by simp
  have "is_shutdown (JStr ''Server Shutdown'')" by code_simp
  then have h3: "contains_ci ''Server Shutdown'' ''shutdown''" by (simp only: is_shutdown_iff)
  have h4: "\<not> snapshot_writable ex_env ex_now (ex_server_noarchive\<lparr>logs := [JStr ''boot'']\<rparr>)"
    by code_simp
  note t = failed_snapshot_drops_records [OF h2 h3 h4]
  have ev: "fst (post_log ex_env ex_now (JObj [(''log'', JStr ''Server Shutdown'')])
       (ex_server_noarchive\<lparr>logs := [JStr ''boot'']\<rparr>)) =
     \<lparr>logs = [],
       disk = \<lparr>files = [(''/usr/src/app/logs.json'', JArr [])], dirs = [''/usr/src/app''],
                denied = [''/usr/src/app/archives'']\<rparr>,
       clients = [\<lparr>is_open = True, send_throws = False, isAlive = True,
                   inbox = [JObj [(''type'', JStr ''new''), (''data'', JArr [JStr ''Server Shutdown''])],
                            JObj [(''type'', JStr ''archive''),
                                  (''data'', JObj [(''archived'', JNull), (''cleared'', JBool True)])]]\<rparr>],
       errlog = [''Error ensuring archive directory:'', ''Error archiving logs:'']\<rparr>"
    by code_simp
  from t ev h2 h3 h4 show ?thesis by (simp only: prod_eq_iff fst_conv snd_conv simp_thms)
qed

text \<open>
  The claim as stated says the empty buffer is still persisted. On a disk that refuses
  both the archive directory and \<^verbatim>\<open>logs.json\<close>, which holds the record \<^verbatim>\<open>boot\<close>, the
  sentinel clears the buffer and the answer carries \<^verbatim>\<open>archived: null\<close>, but
  \<^verbatim>\<open>logs.json\<close> still holds \<^verbatim>\<open>boot\<close>, not the empty array.
\<close>

theorem failed_snapshot_counterexample:
  "is_shutdown (JStr ''Server Shutdown'') \<and>
   logs ex_server_refusing = [JStr ''boot''] \<and>
   \<not> snapshot_writable ex_env ex_now ex_server_refusing \<and>
   snd (post_log ex_env ex_now (JObj [(''log'', JStr ''Server Shutdown'')]) ex_server_refusing) =
     Json 200 (JObj [(''message'', JStr ''Log received and archived (shutdown detected)''),
                     (''archived'', JNull)]) \<and>
   logs (fst (post_log ex_env ex_now (JObj [(''log'', JStr ''Server Shutdown'')]) ex_server_refusing)) =
     [] \<and>
   persisted ex_env
     (fst (post_log ex_env ex_now (JObj [(''log'', JStr ''Server Shutdown'')]) ex_server_refusing)) =
     Some (JArr [JStr ''boot'']) \<and>
   JArr [JStr ''boot''] \<noteq> JArr []"
  by code_simp


section \<open>A snapshot that is written\<close>










section \<open>Snapshot names sort as their clock readings\<close>

lemma of_char_digit: "(of_char (digit n) :: nat) = 48 + n mod 10"
proof -
  have "n mod 10 = 0 \<or> n mod 10 = 1 \<or> n mod 10 = 2 \<or> n mod 10 = 3 \<or> n mod 10 = 4 \<or>
        n mod 10 = 5 \<or> n mod 10 = 6 \<or> n mod 10 = 7 \<or> n mod 10 = 8 \<or> n mod 10 = 9"
    by arith
  then show ?thesis by (elim disjE) (simp_all add: digit_def)
qed

lemma digit_less: "digit a < digit b \<longleftrightarrow> a mod 10 < b mod 10"
  by (simp add: less_char_def of_char_digit)

lemma digit_eq: "digit a = digit b \<longleftrightarrow> a mod 10 = b mod 10"
proof
  assume "digit a = digit b"
  then have "(of_char (digit a) :: nat) = of_char (digit b)" by simp
  then show "a mod 10 = b mod 10" by (simp add: of_char_digit)
next
  assume "a mod 10 = b mod 10"
  then show "digit a = digit b" by (simp add: digit_def)
qed

lemma lex_divmod:
  fixes a b m :: nat
  assumes "0 < m"
  shows "a < b \<longleftrightarrow> a div m < b div m \<or> (a div m = b div m \<and> a mod m < b mod m)"
proof -
  have a: "a = m * (a div m) + a mod m" and b: "b = m * (b div m) + b mod m" by simp_all
  consider "a div m < b div m" | "a div m = b div m" | "b div m < a div m" by arith
  then show ?thesis
  proof cases
    case 1
    then have "a < b" by (metis div_le_mono not_le)
    with 1 show ?thesis by simp
  next
    case 2
    then have "a < b \<longleftrightarrow> a mod m < b mod m" using a b by (metis nat_add_left_cancel_less)
    with 2 show ?thesis by simp
  next
    case 3
    then have "b < a" by (metis div_le_mono not_le)
    with 3 show ?thesis by simp
  qed
qed

lemma eq_divmod:
  fixes a b m :: nat
  shows "a = b \<longleftrightarrow> a div m = b div m \<and> a mod m = b mod m"
  by (metis div_mult_mod_eq)

lemma mod_div_digit:
  fixes n m c :: nat
  assumes "0 < m"
  shows "(n mod (m * c)) div m = (n div m) mod c"
  using assms by (simp add: mod_mult2_eq)

lemma pad3_split: "pad3 n = digit (n div 100) # pad2 (n mod 100)"
proof -
  have "(n mod 100) div 10 = (n div 10) mod 10"
    using mod_div_digit [of 10 n 10] by simp
  moreover have "(n mod 100) mod 10 = n mod 10" by (simp add: mod_mod_cancel)
  ultimately show ?thesis by (simp add: pad3_def pad2_def digit_eq)
qed

lemma pad4_split: "pad4 n = digit (n div 1000) # pad3 (n mod 1000)"
proof -
  have "(n mod 1000) div 100 = (n div 100) mod 10"
    using mod_div_digit [of 100 n 10] by simp
  moreover have "(n mod 1000) div 10 = (n div 10) mod 100"
    using mod_div_digit [of 10 n 100] by simp
  moreover have "(n div 10) mod 100 mod 10 = (n div 10) mod 10" by (simp add: mod_mod_cancel)
  moreover have "(n mod 1000) mod 10 = n mod 10" by (simp add: mod_mod_cancel)
  ultimately show ?thesis by (simp add: pad4_def pad3_def digit_eq)
qed

lemma digit_small_less: "a < 10 \<Longrightarrow> b < 10 \<Longrightarrow> digit a < digit b \<longleftrightarrow> a < b"
  by (simp add: digit_less)

lemma digit_small_eq: "a < 10 \<Longrightarrow> b < 10 \<Longrightarrow> digit a = digit b \<longleftrightarrow> a = b"
  by (simp add: digit_eq)

lemma pad2_less: 
  assumes "a < 100" "b < 100" shows "pad2 a < pad2 b \<longleftrightarrow> a < b"
proof -
  have d: "a div 10 < 10" "b div 10 < 10" using assms by simp_all
  have "pad2 a < pad2 b \<longleftrightarrow> a div 10 < b div 10 \<or> (a div 10 = b div 10 \<and> a mod 10 < b mod 10)"
    using d by (simp add: pad2_def digit_less digit_eq)
  then show ?thesis using lex_divmod [of 10 a b] by simp
qed

lemma pad2_eq:
  assumes "a < 100" "b < 100" shows "pad2 a = pad2 b \<longleftrightarrow> a = b"
proof -
  have d: "a div 10 < 10" "b div 10 < 10" using assms by simp_all
  have "pad2 a = pad2 b \<longleftrightarrow> a div 10 = b div 10 \<and> a mod 10 = b mod 10"
    using d by (simp add: pad2_def digit_eq)
  then show ?thesis using eq_divmod [of a b 10] by simp
qed

lemma pad3_less:
  assumes "a < 1000" "b < 1000" shows "pad3 a < pad3 b \<longleftrightarrow> a < b"
proof -
  have d: "a div 100 < 10" "b div 100 < 10" using assms by simp_all
  have m: "a mod 100 < 100" "b mod 100 < 100" by simp_all
  have "pad3 a < pad3 b \<longleftrightarrow>
        a div 100 < b div 100 \<or> (a div 100 = b div 100 \<and> a mod 100 < b mod 100)"
    by (simp add: pad3_split digit_small_less [OF d] digit_small_eq [OF d] pad2_less [OF m])
  then show ?thesis using lex_divmod [of 100 a b] by simp
qed

lemma pad3_eq:
  assumes "a < 1000" "b < 1000" shows "pad3 a = pad3 b \<longleftrightarrow> a = b"
proof -
  have d: "a div 100 < 10" "b div 100 < 10" using assms by simp_all
  have m: "a mod 100 < 100" "b mod 100 < 100" by simp_all
  have "pad3 a = pad3 b \<longleftrightarrow> a div 100 = b div 100 \<and> a mod 100 = b mod 100"
    by (simp add: pad3_split digit_small_eq [OF d] pad2_eq [OF m])
  then show ?thesis using eq_divmod [of a b 100] by simp
qed

lemma pad4_less:
  assumes "a < 10000" "b < 10000" shows "pad4 a < pad4 b \<longleftrightarrow> a < b"
proof -
  have d: "a div 1000 < 10" "b div 1000 < 10" using assms by simp_all
  have m: "a mod 1000 < 1000" "b mod 1000 < 1000" by simp_all
  have "pad4 a < pad4 b \<longleftrightarrow>
        a div 1000 < b div 1000 \<or> (a div 1000 = b div 1000 \<and> a mod 1000 < b mod 1000)"
    by (simp add: pad4_split digit_small_less [OF d] digit_small_eq [OF d] pad3_less [OF m])
  then show ?thesis using lex_divmod [of 1000 a b] by simp
qed

lemma pad4_eq:
  assumes "a < 10000" "b < 10000" shows "pad4 a = pad4 b \<longleftrightarrow> a = b"
proof -
  have d: "a div 1000 < 10" "b div 1000 < 10" using assms by simp_all
  have m: "a mod 1000 < 1000" "b mod 1000 < 1000" by simp_all
  have "pad4 a = pad4 b \<longleftrightarrow> a div 1000 = b div 1000 \<and> a mod 1000 = b mod 1000"
    by (simp add: pad4_split digit_small_eq [OF d] pad3_eq [OF m])
  then show ?thesis using eq_divmod [of a b 1000] by simp
qed

lemma length_pad [simp]: "length (pad2 n) = 2" "length (pad3 n) = 3" "length (pad4 n) = 4"
  by (simp_all add: pad2_def pad3_def pad4_def)

lemma lex_append_same_length:
  fixes xs ys us vs :: "'a::linorder list"
  assumes "length xs = length ys"
  shows "xs @ us < ys @ vs \<longleftrightarrow> xs < ys \<or> (xs = ys \<and> us < vs)"
  using assms by (induction xs ys rule: list_induct2) auto

lemma archive_name_less:
  assumes "valid_utc a" "valid_utc b"
  shows "archive_name a < archive_name b \<longleftrightarrow> chrono a < chrono b"
proof -
  have r: "year a < 10000" "year b < 10000" "month a < 100" "month b < 100" "day a < 100" "day b < 100"
    "hour a < 100" "hour b < 100" "minute a < 100" "minute b < 100" "second a < 100" "second b < 100"
    "millis a < 1000" "millis b < 1000"
    using assms by (simp_all add: valid_utc_def)
  show ?thesis
    by (simp add: archive_name_eq chrono_def lex_append_same_length
          pad4_less [OF r(1,2)] pad4_eq [OF r(1,2)] pad2_less [OF r(3,4)] pad2_eq [OF r(3,4)]
          pad2_less [OF r(5,6)] pad2_eq [OF r(5,6)] pad2_less [OF r(7,8)] pad2_eq [OF r(7,8)]
          pad2_less [OF r(9,10)] pad2_eq [OF r(9,10)] pad2_less [OF r(11,12)] pad2_eq [OF r(11,12)]
          pad3_less [OF r(13,14)] pad3_eq [OF r(13,14)])
qed

lemma archive_name_inj:
  assumes "valid_utc a" "valid_utc b"
  shows "archive_name a = archive_name b \<longleftrightarrow> chrono a = chrono b"
proof -
  have r: "year a < 10000" "year b < 10000" "month a < 100" "month b < 100" "day a < 100" "day b < 100"
    "hour a < 100" "hour b < 100" "minute a < 100" "minute b < 100" "second a < 100" "second b < 100"
    "millis a < 1000" "millis b < 1000"
    using assms by (simp_all add: valid_utc_def)
  show ?thesis
    by (simp add: archive_name_eq chrono_def
          pad4_eq [OF r(1,2)] pad2_eq [OF r(3,4)]
          pad2_eq [OF r(5,6)] pad2_eq [OF r(7,8)]
          pad2_eq [OF r(9,10)] pad2_eq [OF r(11,12)]
          pad3_eq [OF r(13,14)])
qed

lemma archive_name_le:
  assumes "valid_utc a" "valid_utc b"
  shows "archive_name a \<le> archive_name b \<longleftrightarrow> chrono a \<le> chrono b"
  using archive_name_less [OF assms] archive_name_inj [OF assms] by (simp add: le_less)

lemma map_insort_key_chrono:
  assumes "valid_utc x" "\<forall>t\<in>set xs. valid_utc t"
  shows "map archive_name (insort_key chrono x xs) = insort (archive_name x) (map archive_name xs)"
  using assms(2)
proof (induction xs)
  case Nil
  then show ?case by simp
next
  case (Cons y ys)
  then have "valid_utc y" by simp
  from archive_name_le [OF assms(1) this] Cons show ?case by simp
qed

lemma map_sort_key_chrono:
  assumes "\<forall>t\<in>set ts. valid_utc t"
  shows "map archive_name (sort_key chrono ts) = sort (map archive_name ts)"
  using assms
proof (induction ts)
  case Nil
  then show ?case by simp
next
  case (Cons t ts)
  then have v: "valid_utc t" "\<forall>u\<in>set (sort_key chrono ts). valid_utc u" by simp_all
  from map_insort_key_chrono [OF v] Cons show ?case by simp
qed

text \<open>
  Claim C6. \<^verbatim>\<open>GET /logs/archives\<close> answers with all the \<^verbatim>\<open>.json\<close> names of the
  archive directory, sorted and reversed. When these names are the snapshot names of the
  clock readings \<open>ts\<close> (each printed by \<^verbatim>\<open>toISOString\<close> with a four-digit year), in
  whatever order the directory yields them, the answer lists them latest reading first:
  the descending lexicographic order of the names is the reverse chronological order of
  the readings.
\<close>

theorem archives_listed_newest_first:
  assumes "\<forall>t\<in>set ts. valid_utc t"
    and "readdirSync (disk (ensureArchiveDir E st)) (ARCHIVE_DIR E) = Inr names"
    and "filter (\<lambda>f. ends_with f ''.json'') names = map archive_name ts"
  shows "snd (get_logs_archives E st) =
           Json 200 (JArr (map JStr (map archive_name (rev (sort_key chrono ts)))))"
proof -
  have "sort (map archive_name ts) = map archive_name (sort_key chrono ts)"
    by (rule map_sort_key_chrono [OF assms(1), symmetric])
  with assms(2,3) show ?thesis
    by (simp add: get_logs_archives_def Let_def rev_map)
qed

theorem archives_listed_newest_first_witness:
  "valid_utc ex_t2 \<and> valid_utc ex_now \<and> valid_utc ex_t1 \<and>
   readdirSync (disk (ensureArchiveDir ex_env ex_server_archives)) (ARCHIVE_DIR ex_env) =
     Inr [''logs-2026-01-02T00-00-00-000Z.json'', ''notes.txt'',
          ''logs-2026-11-03T09-05-07-042Z.json'', ''logs-2025-12-31T23-59-59-999Z.json''] \<and>
   snd (get_logs_archives ex_env ex_server_archives) =
     Json 200 (JArr [JStr ''logs-2026-11-03T09-05-07-042Z.json'',
                     JStr ''logs-2026-01-02T00-00-00-000Z.json'',
                     JStr ''logs-2025-12-31T23-59-59-999Z.json''])"
proof -
  have h1: "\<forall>t\<in>set [ex_t2, ex_now, ex_t1]. valid_utc t" by code_simp
  have h2: "readdirSync (disk (ensureArchiveDir ex_env ex_server_archives)) (ARCHIVE_DIR ex_env) =
     Inr [''logs-2026-01-02T00-00-00-000Z.json'', ''notes.txt'',
          ''logs-2026-11-03T09-05-07-042Z.json'', ''logs-2025-12-31T23-59-59-999Z.json'']"
    by code_simp
  have h3: "filter (\<lambda>f. ends_with f ''.json'')
       [''logs-2026-01-02T00-00-00-000Z.json'', ''notes.txt'',
        ''logs-2026-11-03T09-05-07-042Z.json'', ''logs-2025-12-31T23-59-59-999Z.json''] = map archive_name [ex_t2, ex_now, ex_t1]"
    by code_simp
  note t = archives_listed_newest_first [OF h1 h2 h3]
  have ev: "map JStr (map archive_name (rev (sort_key chrono [ex_t2, ex_now, ex_t1]))) =
      [JStr ''logs-2026-11-03T09-05-07-042Z.json'',
       JStr ''logs-2026-01-02T00-00-00-000Z.json'',
       JStr ''logs-2025-12-31T23-59-59-999Z.json'']"
    by code_simp
  have v: "valid_utc ex_t2" "valid_utc ex_now" "valid_utc ex_t1" by code_simp+
  from t v h2 show ?thesis by (simp only: ev simp_thms)
qed

section \<open>Resolving archive identifiers\<close>

lemma basename_no_slash: "CHR ''/'' \<notin> set (basename p)"
  using set_takeWhileD [of "CHR ''/''" "\<lambda>c. c \<noteq> CHR ''/''"] by (auto simp: basename_def)

lemma norm_segs_single:
  assumes "list_all clean_seg segs" "segs \<noteq> []"
  shows "norm_segs False segs [s] =
           (if s = [] \<or> s = ''.'' then segs else if s = ''..'' then butlast segs else segs @ [s])"
proof -
  have "clean_seg (last segs)" using assms by (simp add: list_all_iff)
  then have "last segs \<noteq> ''..''" by (simp add: clean_seg_def)
  with assms(2) show ?thesis by simp
qed

lemma not_absolute_no_slash: "CHR ''/'' \<notin> set s \<Longrightarrow> \<not> isAbsolute s"
  by (cases s) (auto simp: isAbsolute_def)

lemma path_resolve_dir:
  assumes "norm_abs a"
  shows "path_resolve c [a] = a"
proof -
  from assms obtain segs where s: "split_on CHR ''/'' a = [] # segs" "segs \<noteq> []"
    "list_all clean_seg segs" "a = CHR ''/'' # join_with CHR ''/'' segs"
    by (rule norm_absD)
  have abs: "a \<noteq> []" "isAbsolute a" using norm_abs_nonempty [OF assms] by simp_all
  have "normalizeString (a @ CHR ''/'' # []) False = join_with CHR ''/'' segs"
    by (simp add: normalizeString_abs [OF s(1) s(3)])
  with abs s(4) show ?thesis by (simp add: path_resolve_def)
qed

lemma path_resolve_child:
  assumes "norm_abs a" "CHR ''/'' \<notin> set s"
  obtains segs where "split_on CHR ''/'' a = [] # segs" "segs \<noteq> []" "list_all clean_seg segs"
    "a = CHR ''/'' # join_with CHR ''/'' segs"
    "path_resolve c [a, s] = CHR ''/'' # join_with CHR ''/'' (norm_segs False segs [s])"
proof -
  from assms(1) obtain segs where s: "split_on CHR ''/'' a = [] # segs" "segs \<noteq> []"
    "list_all clean_seg segs" "a = CHR ''/'' # join_with CHR ''/'' segs"
    by (rule norm_absD)
  have abs: "a \<noteq> []" "isAbsolute a" using norm_abs_nonempty [OF assms(1)] by simp_all
  have "path_resolve c [a, s] = CHR ''/'' # join_with CHR ''/'' (norm_segs False segs [s])"
  proof (cases "s = []")
    case True
    have "normalizeString (a @ CHR ''/'' # []) False = join_with CHR ''/'' segs"
      by (simp add: normalizeString_abs [OF s(1) s(3)])
    with True abs show ?thesis by (simp add: path_resolve_def)
  next
    case False
    have na: "\<not> isAbsolute s" by (rule not_absolute_no_slash [OF assms(2)])
    have sp: "split_on CHR ''/'' (s @ CHR ''/'' # []) = [s, []]"
      using assms(2) by (simp add: split_on_append_sep split_on_no_sep)
    have "norm_segs False segs [s, []] = norm_segs False (norm_segs False segs [s]) [[]]"
      using norm_segs_append [of False segs "[s]" "[[]]"] by simp
    then have "norm_segs False segs [s, []] = norm_segs False segs [s]" by simp
    then have "normalizeString (a @ CHR ''/'' # (s @ CHR ''/'' # [])) False =
          join_with CHR ''/'' (norm_segs False segs [s])"
      by (simp only: normalizeString_abs [OF s(1) s(3)] sp)
    with False na abs show ?thesis by (simp add: path_resolve_def)
  qed
  with s that show thesis by blast
qed

lemma norm_abs_dirname_segs:
  assumes "norm_abs r"
  obtains segs where "split_on CHR ''/'' r = [] # segs" "segs \<noteq> []" "list_all clean_seg segs"
    "r = CHR ''/'' # join_with CHR ''/'' segs"
    "split_on CHR ''/'' (r @ ''/archives'') = [] # (segs @ [''archives''])"
proof -
  from assms obtain segs where s: "split_on CHR ''/'' r = [] # segs" "segs \<noteq> []"
    "list_all clean_seg segs" "r = CHR ''/'' # join_with CHR ''/'' segs"
    by (rule norm_absD)
  have "split_on CHR ''/'' (r @ CHR ''/'' # ''archives'') = [] # (segs @ [''archives''])"
    using s(1) by (simp add: split_on_append_sep split_on_no_sep)
  with s that show thesis by simp
qed

lemma resolve_in_archive:
  assumes na: "norm_abs (dirname E)" and ns: "CHR ''/'' \<notin> set s"
  shows "path_resolve c [ARCHIVE_DIR E, s] =
           (if s = [] \<or> s = ''.'' then ARCHIVE_DIR E
            else if s = ''..'' then dirname E
            else ARCHIVE_DIR E @ ''/'' @ s)"
proof -
  from na obtain segs where r: "split_on CHR ''/'' (dirname E) = [] # segs" "segs \<noteq> []"
    "list_all clean_seg segs" "dirname E = CHR ''/'' # join_with CHR ''/'' segs"
    "split_on CHR ''/'' (dirname E @ ''/archives'') = [] # (segs @ [''archives''])"
    by (rule norm_abs_dirname_segs)
  have A: "ARCHIVE_DIR E = dirname E @ ''/archives''" by (rule ARCHIVE_DIR_eq [OF na])
  have nA: "norm_abs (ARCHIVE_DIR E)" by (rule norm_abs_ARCHIVE_DIR [OF na])
  from nA ns obtain asegs where a: "split_on CHR ''/'' (ARCHIVE_DIR E) = [] # asegs"
    "list_all clean_seg asegs" "asegs \<noteq> []"
    "ARCHIVE_DIR E = CHR ''/'' # join_with CHR ''/'' asegs"
    "path_resolve c [ARCHIVE_DIR E, s] = CHR ''/'' # join_with CHR ''/'' (norm_segs False asegs [s])"
    by (rule path_resolve_child [of "ARCHIVE_DIR E" s c]) blast
  from a(1) r(5) A have as: "asegs = segs @ [''archives'']" by simp
  have bl: "butlast asegs = segs" by (simp add: as)
  have single: "norm_segs False asegs [s] =
      (if s = [] \<or> s = ''.'' then asegs else if s = ''..'' then butlast asegs else asegs @ [s])"
    by (rule norm_segs_single [OF a(2) a(3)])
  show ?thesis
  proof (cases "s = [] \<or> s = ''.''")
    case True
    with single have "norm_segs False asegs [s] = asegs" by auto
    then have "path_resolve c [ARCHIVE_DIR E, s] = CHR ''/'' # join_with CHR ''/'' asegs"
      by (simp only: a(5))
    also have "\<dots> = ARCHIVE_DIR E" by (rule a(4) [symmetric])
    finally show ?thesis using True by auto
  next
    case False
    show ?thesis
    proof (cases "s = ''..''")
      case True
      with single bl have "norm_segs False asegs [s] = segs" by simp
      then have "path_resolve c [ARCHIVE_DIR E, s] = CHR ''/'' # join_with CHR ''/'' segs"
        by (simp only: a(5))
      also have "\<dots> = dirname E" by (rule r(4) [symmetric])
      finally show ?thesis using True by simp
    next
      case n: False
      with False single have "norm_segs False asegs [s] = asegs @ [s]" by simp
      then have "path_resolve c [ARCHIVE_DIR E, s] = CHR ''/'' # join_with CHR ''/'' (asegs @ [s])"
        by (simp only: a(5))
      also have "\<dots> = (CHR ''/'' # join_with CHR ''/'' asegs) @ CHR ''/'' # s"
        using a(3) by (simp add: join_with_snoc)
      also have "\<dots> = ARCHIVE_DIR E @ ''/'' @ s" by (simp add: a(4) [symmetric])
      finally show ?thesis using False n by simp
    qed
  qed
qed

lemma segments_norm_abs:
  assumes "split_on CHR ''/'' a = [] # segs" "list_all clean_seg segs"
  shows "segments a = segs"
proof -
  have "filter (\<lambda>s. s \<noteq> []) segs = segs"
    using assms(2) by (auto simp: list_all_iff clean_seg_def intro: filter_True)
  with assms(1) show ?thesis by (simp add: segments_def)
qed

lemma drop_common_prefix:
  "drop_common xs (xs @ ys) = ([], ys)" "drop_common (xs @ ys) xs = (ys, [])"
proof -
  show "drop_common xs (xs @ ys) = ([], ys)" by (induction xs) simp_all
  show "drop_common (xs @ ys) xs = (ys, [])"
  proof (induction xs)
    case Nil
    then show ?case by (cases ys) simp_all
  next
    case (Cons a xs)
    then show ?case by simp
  qed
qed

lemma relative_in_archive:
  assumes na: "norm_abs (dirname E)" and ns: "CHR ''/'' \<notin> set s"
  shows "path_relative c (path_resolve c [ARCHIVE_DIR E]) (path_resolve c [ARCHIVE_DIR E, s]) =
           (if s = [] \<or> s = ''.'' then [] else s)"
proof -
  from na obtain segs where r: "split_on CHR ''/'' (dirname E) = [] # segs" "segs \<noteq> []"
    "list_all clean_seg segs" "dirname E = CHR ''/'' # join_with CHR ''/'' segs"
    "split_on CHR ''/'' (dirname E @ ''/archives'') = [] # (segs @ [''archives''])"
    by (rule norm_abs_dirname_segs)
  have A: "ARCHIVE_DIR E = dirname E @ ''/archives''" by (rule ARCHIVE_DIR_eq [OF na])
  have nA: "norm_abs (ARCHIVE_DIR E)" by (rule norm_abs_ARCHIVE_DIR [OF na])
  have rA: "path_resolve c [ARCHIVE_DIR E] = ARCHIVE_DIR E" by (rule path_resolve_dir [OF nA])
  have ca: "list_all clean_seg (segs @ [''archives''])" using r(3) by (simp add: clean_seg_def)
  have sA: "segments (ARCHIVE_DIR E) = segs @ [''archives'']"
    using segments_norm_abs [OF r(5) ca] A by simp
  have sr: "segments (dirname E) = segs" by (rule segments_norm_abs [OF r(1) r(3)])
  note full = resolve_in_archive [OF na ns, of c]
  have rel: "path_relative c (ARCHIVE_DIR E) t =
      (case drop_common (segs @ [''archives'']) (segments t) of
         (fs, ts) \<Rightarrow> join_with CHR ''/'' (map (\<lambda>s. ''..'') fs @ ts))"
    if "norm_abs t" for t
    using path_resolve_dir [OF that, of c] by (simp add: path_relative_def Let_def rA sA)
  show ?thesis
  proof (cases "s = [] \<or> s = ''.''")
    case True
    then have f: "path_resolve c [ARCHIVE_DIR E, s] = ARCHIVE_DIR E" using full by auto
    have "path_relative c (ARCHIVE_DIR E) (ARCHIVE_DIR E) = []"
      using drop_common_prefix(1) [of "segs @ [''archives'']" "[]"] by (simp add: rel [OF nA] sA)
    with True show ?thesis unfolding rA f by auto
  next
    case False
    show ?thesis
    proof (cases "s = ''..''")
      case True
      then have f: "path_resolve c [ARCHIVE_DIR E, s] = dirname E" using full by simp
      have "path_relative c (ARCHIVE_DIR E) (dirname E) = ''..''"
        using drop_common_prefix(2) [of segs "[''archives'']"] by (simp add: rel [OF na] sr)
      with True False show ?thesis unfolding rA f by simp
    next
      case n: False
      with False have cs: "clean_seg s" using ns by (simp add: clean_seg_def)
      from False n have f: "path_resolve c [ARCHIVE_DIR E, s] = ARCHIVE_DIR E @ ''/'' @ s"
        using full by simp
      have nc: "norm_abs (ARCHIVE_DIR E @ CHR ''/'' # s)"
        by (rule norm_abs_child [OF nA cs])
      have "split_on CHR ''/'' (ARCHIVE_DIR E @ CHR ''/'' # s) = [] # (segs @ [''archives'', s])"
        using r(5) ns A by (simp add: split_on_append_sep split_on_no_sep)
      moreover have "list_all clean_seg (segs @ [''archives'', s])"
        using ca cs by simp
      ultimately have sc: "segments (ARCHIVE_DIR E @ CHR ''/'' # s) = segs @ [''archives'', s]"
        by (rule segments_norm_abs)
      have "path_relative c (ARCHIVE_DIR E) (ARCHIVE_DIR E @ CHR ''/'' # s) = s"
        using drop_common_prefix(1) [of "segs @ [''archives'']" "[s]"] by (simp add: rel [OF nc] sc)
      then have "path_relative c (ARCHIVE_DIR E) (ARCHIVE_DIR E @ ''/'' @ s) = s" by simp
      with False show ?thesis unfolding rA f by simp
    qed
  qed
qed

lemma starts_with_append: "starts_with (p @ t) p"
  by (simp add: starts_with_def)

lemma not_starts_with_longer: "length x < length p \<Longrightarrow> \<not> starts_with x p"
  by (auto simp: starts_with_def)

lemma outside_iff:
  assumes na: "norm_abs (dirname E)" and ns: "CHR ''/'' \<notin> set s"
  shows "starts_with (path_resolve c [ARCHIVE_DIR E, s]) (path_resolve c [ARCHIVE_DIR E] @ ''/'') \<longleftrightarrow>
         \<not> (s = [] \<or> s = ''.'' \<or> s = ''..'')"
proof -
  have rA: "path_resolve c [ARCHIVE_DIR E] = ARCHIVE_DIR E"
    by (rule path_resolve_dir [OF norm_abs_ARCHIVE_DIR [OF na]])
  note full = resolve_in_archive [OF na ns, of c]
  have A: "ARCHIVE_DIR E = dirname E @ ''/archives''" by (rule ARCHIVE_DIR_eq [OF na])
  have 1: "\<not> starts_with (ARCHIVE_DIR E) (ARCHIVE_DIR E @ ''/'')"
    by (rule not_starts_with_longer) simp
  have 2: "\<not> starts_with (dirname E) (ARCHIVE_DIR E @ ''/'')"
    by (rule not_starts_with_longer) (simp add: A)
  have 3: "starts_with (ARCHIVE_DIR E @ ''/'' @ s) (ARCHIVE_DIR E @ ''/'')"
    using starts_with_append [of "ARCHIVE_DIR E @ ''/''" s] by simp
  show ?thesis unfolding rA full using 1 2 3 by auto
qed

lemma download_check_iff:
  assumes na: "norm_abs (dirname E)" and ns: "CHR ''/'' \<notin> set s"
  shows "starts_with (path_relative c (path_resolve c [ARCHIVE_DIR E]) (path_resolve c [ARCHIVE_DIR E, s])) ''..'' \<or>
         isAbsolute (path_relative c (path_resolve c [ARCHIVE_DIR E]) (path_resolve c [ARCHIVE_DIR E, s])) \<longleftrightarrow>
         starts_with s ''..''"
proof -
  have nabs: "\<not> isAbsolute s" by (rule not_absolute_no_slash [OF ns])
  show ?thesis
    unfolding relative_in_archive [OF na ns]
    using nabs by (auto simp: starts_with_def isAbsolute_def)
qed

lemma delete_archive_eq:
  assumes na: "norm_abs (dirname E)"
  shows "delete_archive E name st =
     (let s = basename name; st1 = ensureArchiveDir E st; full = ARCHIVE_DIR E @ ''/'' @ s
      in if s = [] \<or> s = ''.'' \<or> s = ''..'' then
           (st1, Json 400 (JObj [(''error'', JStr ''Invalid filename'')]))
         else if \<not> existsSync (disk st1) full then
           (st1, Json 404 (JObj [(''error'', JStr ''File not found'')]))
         else
           (case unlinkSync (disk st1) full of
              Inr fs' \<Rightarrow>
                (st1\<lparr>disk := fs'\<rparr>, Json 200 (JObj [(''ok'', JBool True), (''deleted'', JStr s)]))
            | Inl err \<Rightarrow>
                (console_error ''Error deleting archive:'' st1,
                 Json 500 (JObj [(''error'', JStr ''Failed to delete archive'')]))))"
proof -
  have ns: "CHR ''/'' \<notin> set (basename name)" by (rule basename_no_slash)
  note o = outside_iff [OF na ns, of "cwd E"]
  note full = resolve_in_archive [OF na ns, of "cwd E"]
  show ?thesis
  proof (cases "basename name = [] \<or> basename name = ''.'' \<or> basename name = ''..''")
    case True
    with o show ?thesis by (simp add: delete_archive_def Let_def)
  next
    case False
    with o full show ?thesis by (simp add: delete_archive_def Let_def)
  qed
qed

lemma download_archive_eq:
  assumes na: "norm_abs (dirname E)"
  shows "download_archive E name st =
     (let s = basename name; st1 = ensureArchiveDir E st;
          full = (if s = [] \<or> s = ''.'' then ARCHIVE_DIR E else ARCHIVE_DIR E @ ''/'' @ s)
      in if starts_with s ''..'' then (st1, Text 400 ''Invalid filename'')
         else if \<not> existsSync (disk st1) full then (st1, Text 404 ''File not found'')
         else
           (case readStream (disk st1) full of
              Inr doc \<Rightarrow> (st1, Attachment s doc)
            | Inl err \<Rightarrow>
                (console_error ''Error streaming file'' st1, Text 500 ''Error reading file'')))"
proof -
  have ns: "CHR ''/'' \<notin> set (basename name)" by (rule basename_no_slash)
  note d = download_check_iff [OF na ns, of "cwd E"]
  note full = resolve_in_archive [OF na ns, of "cwd E"]
  show ?thesis
  proof (cases "starts_with (basename name) ''..''")
    case True
    with d show ?thesis by (simp add: download_archive_def Let_def)
  next
    case False
    then have "basename name \<noteq> ''..''" by (auto simp: starts_with_def)
    with False d full show ?thesis by (simp add: download_archive_def Let_def)
  qed
qed

text \<open>
  Claim C7, as amended. Delete and download cut the identifier down to its last path
  component (\<^verbatim>\<open>path.basename\<close>), which holds no slash, and resolve that component
  against the archive directory. The component resolves outside the directory exactly when
  it is empty, \<^verbatim>\<open>.\<close> or \<^verbatim>\<open>..\<close>; delete answers 400 in exactly these cases, and
  download answers 400 exactly when the component begins with \<^verbatim>\<open>..\<close>. Whatever the
  identifier, the only change delete can make to the disk, beyond making the archive
  directory, is to remove the file of that component directly inside the archive
  directory; download changes nothing and streams only that file (or what lies at the
  archive directory's own path when the component is empty or \<^verbatim>\<open>.\<close>). So no file
  outside the archive area is touched.
\<close>

theorem archive_ops_confined:
  assumes na: "norm_abs (dirname E)"
  shows "CHR ''/'' \<notin> set (basename name) \<and>
     (resolves_outside E (basename name) \<longleftrightarrow>
        basename name = [] \<or> basename name = ''.'' \<or> basename name = ''..'') \<and>
     (resolves_outside E (basename name) \<longrightarrow>
        delete_archive E name st =
          (ensureArchiveDir E st, Json 400 (JObj [(''error'', JStr ''Invalid filename'')]))) \<and>
     (\<not> resolves_outside E (basename name) \<longrightarrow>
        snd (delete_archive E name st) \<noteq> Json 400 (JObj [(''error'', JStr ''Invalid filename'')])) \<and>
     (disk (fst (delete_archive E name st)) = disk (ensureArchiveDir E st) \<or>
      disk (fst (delete_archive E name st)) =
        (disk (ensureArchiveDir E st))
          \<lparr>files := AList.delete (ARCHIVE_DIR E @ ''/'' @ basename name)
                      (files (disk (ensureArchiveDir E st)))\<rparr>) \<and>
     (starts_with (basename name) ''..'' \<longleftrightarrow>
        snd (download_archive E name st) = Text 400 ''Invalid filename'') \<and>
     disk (fst (download_archive E name st)) = disk (ensureArchiveDir E st) \<and>
     (\<forall>f doc. snd (download_archive E name st) = Attachment f doc \<longrightarrow>
        f = basename name \<and>
        readStream (disk (ensureArchiveDir E st))
          (if basename name = [] \<or> basename name = ''.'' then ARCHIVE_DIR E
           else ARCHIVE_DIR E @ ''/'' @ basename name) = Inr doc)"
proof -
  let ?s = "basename name"
  let ?st1 = "ensureArchiveDir E st"
  have ns: "CHR ''/'' \<notin> set ?s" by (rule basename_no_slash)
  have ro: "resolves_outside E ?s \<longleftrightarrow> ?s = [] \<or> ?s = ''.'' \<or> ?s = ''..''"
    unfolding resolves_outside_def outside_iff [OF na ns] by simp
  note de = delete_archive_eq [OF na, of name st]
  note dl = download_archive_eq [OF na, of name st]
  have c3: "delete_archive E name st = (?st1, Json 400 (JObj [(''error'', JStr ''Invalid filename'')]))"
    if "resolves_outside E ?s"
    using that ro by (simp add: de Let_def)
  have c4: "snd (delete_archive E name st) \<noteq> Json 400 (JObj [(''error'', JStr ''Invalid filename'')])"
    if "\<not> resolves_outside E ?s"
    using that ro by (simp add: de Let_def split: sum.splits)
  have c5: "disk (fst (delete_archive E name st)) = disk ?st1 \<or>
      disk (fst (delete_archive E name st)) =
        (disk ?st1)\<lparr>files := AList.delete (ARCHIVE_DIR E @ ''/'' @ ?s) (files (disk ?st1))\<rparr>"
    by (simp add: de Let_def unlinkSync_def console_error_def)
  have c6: "starts_with ?s ''..'' \<longleftrightarrow> snd (download_archive E name st) = Text 400 ''Invalid filename''"
    by (simp add: dl Let_def split: sum.splits)
  have c7: "disk (fst (download_archive E name st)) = disk ?st1"
    by (simp add: dl Let_def console_error_def split: sum.splits)
  have c8: "f = ?s \<and> readStream (disk ?st1)
          (if ?s = [] \<or> ?s = ''.'' then ARCHIVE_DIR E else ARCHIVE_DIR E @ ''/'' @ ?s) = Inr doc"
    if "snd (download_archive E name st) = Attachment f doc" for f doc
    using that by (auto simp: dl Let_def split: if_splits sum.splits)
  from ns ro c3 c4 c5 c6 c7 c8 show ?thesis by blast
qed

theorem archive_ops_confined_witness:
  "norm_abs (dirname ex_env) \<and>
   basename ''a/..'' = ''..'' \<and> resolves_outside ex_env ''..'' \<and>
   delete_archive ex_env ''a/..'' ex_server_archives =
     (ex_server_archives, Json 400 (JObj [(''error'', JStr ''Invalid filename'')])) \<and>
   download_archive ex_env ''a/..'' ex_server_archives =
     (ex_server_archives, Text 400 ''Invalid filename'') \<and>
   basename ''../../etc/logs-2026-01-02T00-00-00-000Z.json'' = ''logs-2026-01-02T00-00-00-000Z.json'' \<and>
   \<not> resolves_outside ex_env ''logs-2026-01-02T00-00-00-000Z.json'' \<and>
   snd (delete_archive ex_env ''../../etc/logs-2026-01-02T00-00-00-000Z.json'' ex_server_archives) =
     Json 200 (JObj [(''ok'', JBool True), (''deleted'', JStr ''logs-2026-01-02T00-00-00-000Z.json'')]) \<and>
   disk (fst (delete_archive ex_env ''../../etc/logs-2026-01-02T00-00-00-000Z.json'' ex_server_archives)) =
     ex_disk_archives\<lparr>files :=
       AList.delete ''/usr/src/app/archives/logs-2026-01-02T00-00-00-000Z.json'' (files ex_disk_archives)\<rparr> \<and>
   download_archive ex_env ''../../etc/logs-2026-01-02T00-00-00-000Z.json'' ex_server_archives =
     (ex_server_archives, Attachment ''logs-2026-01-02T00-00-00-000Z.json'' (JArr [JStr ''b'']))"
proof -
  have h: "norm_abs (dirname ex_env)" by code_simp
  note t1 = archive_ops_confined [OF h, of "''a/..''" ex_server_archives]
  note t2 = archive_ops_confined [OF h, of "''../../etc/logs-2026-01-02T00-00-00-000Z.json''" ex_server_archives]
  have b1: "basename ''a/..'' = ''..''" by code_simp
  have b2: "basename ''../../etc/logs-2026-01-02T00-00-00-000Z.json'' = ''logs-2026-01-02T00-00-00-000Z.json''"
    by code_simp
  have e: "ensureArchiveDir ex_env ex_server_archives = ex_server_archives" by code_simp
  have r1: "resolves_outside ex_env ''..''" using t1 by (simp only: b1 simp_thms)
  have r2: "\<not> resolves_outside ex_env ''logs-2026-01-02T00-00-00-000Z.json''"
    using t2 unfolding b2 by simp
  have d1: "delete_archive ex_env ''a/..'' ex_server_archives =
     (ex_server_archives, Json 400 (JObj [(''error'', JStr ''Invalid filename'')]))"
    using t1 r1 unfolding b1 e by blast
  have d2: "download_archive ex_env ''a/..'' ex_server_archives =
     (ex_server_archives, Text 400 ''Invalid filename'')"
    by code_simp
  have d3: "snd (delete_archive ex_env ''../../etc/logs-2026-01-02T00-00-00-000Z.json'' ex_server_archives) =
     Json 200 (JObj [(''ok'', JBool True), (''deleted'', JStr ''logs-2026-01-02T00-00-00-000Z.json'')])"
    by code_simp
  have d4: "disk (fst (delete_archive ex_env ''../../etc/logs-2026-01-02T00-00-00-000Z.json'' ex_server_archives)) =
     ex_disk_archives\<lparr>files :=
       AList.delete ''/usr/src/app/archives/logs-2026-01-02T00-00-00-000Z.json'' (files ex_disk_archives)\<rparr>"
    by code_simp
  have d5: "download_archive ex_env ''../../etc/logs-2026-01-02T00-00-00-000Z.json'' ex_server_archives =
     (ex_server_archives, Attachment ''logs-2026-01-02T00-00-00-000Z.json'' (JArr [JStr ''b'']))"
    by code_simp
  from h b1 r1 d1 d2 b2 r2 d3 d4 d5 show ?thesis by (simp only: simp_thms)
qed

text \<open>
  The claim as stated promises status 400 for every identifier that resolves outside the
  archive area. The identifier \<^verbatim>\<open>../../etc/passwd\<close> resolves to
  \<^verbatim>\<open>/usr/src/etc/passwd\<close>, outside \<^verbatim>\<open>/usr/src/app/archives\<close>; both handlers treat it
  as \<^verbatim>\<open>passwd\<close> inside the archive directory and answer 404.
\<close>

theorem traversal_identifier_counterexample:
  "path_resolve (cwd ex_env) [ARCHIVE_DIR ex_env, ''../../etc/passwd''] = ''/usr/src/etc/passwd'' \<and>
   resolves_outside ex_env ''../../etc/passwd'' \<and>
   snd (delete_archive ex_env ''../../etc/passwd'' ex_server) =
     Json 404 (JObj [(''error'', JStr ''File not found'')]) \<and>
   snd (download_archive ex_env ''../../etc/passwd'' ex_server) = Text 404 ''File not found'' \<and>
   Json 404 (JObj [(''error'', JStr ''File not found'')]) \<noteq>
     Json 400 (JObj [(''error'', JStr ''Invalid filename'')]) \<and>
   Text 404 ''File not found'' \<noteq> Text 400 ''Invalid filename''"
  by code_simp

end
